theory Spec2Isabelle
  imports Complex_Main "HOL-Library.AList" "HOL-Library.Multiset" "HOL-Library.Word"
begin

section \<open>The FPC voting engine of package fpc\<close>

text \<open>
  A shallow embedding of the Go package \<^verbatim>\<open>fpc\<close> (the third document of
  \<^verbatim>\<open>docker.go\<close>, lines 225--519). Conventions of the embedding:
  \<^item> a Go \<^verbatim>\<open>float64\<close> is a value of the datatype \<open>float64\<close>: a finite number,
    an infinity or NaN; every arithmetic operation rounds its exact result to the nearest
    number with a 53-bit significand, ties to even (IEEE 754 binary64), one operation at a
    time (the compiler for amd64 does not fuse a multiplication with an addition); the two
    zeros are not told apart (the code does not divide by a zero);
  \<^item> a Go \<^verbatim>\<open>int\<close> is an \<^typ>\<open>int\<close> between \<open>-2^63\<close> and \<open>2^63 - 1\<close> (a 64-bit platform);
    the additions and subtractions of \<^verbatim>\<open>isFinal\<close>, whose operands are parameters, wrap
    around, as Go's do; a counter (\<^verbatim>\<open>count++\<close>, a loop index) is bounded by the length of
    a slice, which is below \<open>2^63\<close>, and is incremented without wrapping;
  \<^item> a Go slice value of type \<^verbatim>\<open>Opinions\<close> is a \<^typ>\<open>bool list option\<close>, \<open>None\<close>
    being the \<^verbatim>\<open>nil\<close> slice;
  \<^item> a Go map that the code ranges over is an association list with distinct keys; the
    order of the list is the order of the iteration (Go leaves it unspecified, and the
    theorems hold for every order);
  \<^item> a run-time panic is a value \<open>Inl e\<close> of the result.
\<close>

subsection \<open>Run-time panics and slice primitives\<close>

datatype error =
    IndexOutOfRange
  | SliceBoundsOutOfRange
  | MakeLenOutOfRange
  | IntnInvalidArgument

text \<open>Go's \<^verbatim>\<open>int\<close> arithmetic wraps around at \<open>2^63\<close>.\<close>

definition wrap64 :: "int \<Rightarrow> int" where
  "wrap64 i = (i + 2 ^ 63) mod 2 ^ 64 - 2 ^ 63"

text \<open>\<^verbatim>\<open>s[i]\<close>: panics unless \<open>0 \<le> i < len(s)\<close>.\<close>

definition index_go :: "'a list \<Rightarrow> int \<Rightarrow> error + 'a" where
  "index_go s i = (if 0 \<le> i \<and> i < int (length s) then Inr (s ! nat i) else Inl IndexOutOfRange)"

text \<open>\<^verbatim>\<open>s[i:]\<close> on a slice that is not \<^verbatim>\<open>nil\<close>: panics unless \<open>0 \<le> i \<le> len(s)\<close>.\<close>

definition slice_from :: "'a list \<Rightarrow> int \<Rightarrow> error + 'a list" where
  "slice_from s i =
     (if 0 \<le> i \<and> i \<le> int (length s) then Inr (drop (nat i) s) else Inl SliceBoundsOutOfRange)"

subsection \<open>Floating point\<close>

text \<open>
  A \<^verbatim>\<open>float64\<close>. \<open>round_even\<close> rounds a real to the nearest integer, ties to even.
  \<open>exponent y\<close> is the binary exponent of \<open>y \<ge> 0\<close>, kept between \<open>-1022\<close> (subnormal
  numbers) and \<open>1023\<close>. \<open>round64 x\<close> rounds the real \<open>x\<close> to the nearest multiple of the
  unit in the last place \<open>2^(exponent |x| - 52)\<close>, and overflows to an infinity from \<open>2^1024\<close>
  on.
\<close>

datatype float64 = Finite real | PInf | NInf | NaN

definition round_even :: "real \<Rightarrow> int" where
  "round_even y =
     (let f = \<lfloor>y\<rfloor>; d = y - of_int f
      in if d < 1 / 2 then f else if 1 / 2 < d then f + 1 else if even f then f else f + 1)"

fun exponent_up :: "nat \<Rightarrow> real \<Rightarrow> int \<Rightarrow> int" where
  "exponent_up 0 y e = e"
| "exponent_up (Suc n) y e = (if y < 2 powi (e + 1) then e else exponent_up n y (e + 1))"

fun exponent_down :: "nat \<Rightarrow> real \<Rightarrow> int \<Rightarrow> int" where
  "exponent_down 0 y e = e"
| "exponent_down (Suc n) y e = (if 2 powi e \<le> y then e else exponent_down n y (e - 1))"

definition exponent :: "real \<Rightarrow> int" where
  "exponent y = (if 1 \<le> y then exponent_up 1023 y 0 else exponent_down 1021 y (- 1))"

definition round64 :: "real \<Rightarrow> float64" where
  "round64 x =
     (let q = 2 powi (exponent \<bar>x\<bar> - 52); r = of_int (round_even (x / q)) * q
      in if 2 ^ 1024 \<le> r then PInf else if r \<le> - (2 ^ 1024) then NInf else Finite r)"

text \<open>The operations of Go on \<^verbatim>\<open>float64\<close> that the package uses.\<close>

fun f64_neg :: "float64 \<Rightarrow> float64" where
  "f64_neg (Finite x) = Finite (- x)"
| "f64_neg PInf = NInf"
| "f64_neg NInf = PInf"
| "f64_neg NaN = NaN"

fun f64_add :: "float64 \<Rightarrow> float64 \<Rightarrow> float64" where
  "f64_add (Finite x) (Finite y) = round64 (x + y)"
| "f64_add NaN v = NaN"
| "f64_add u NaN = NaN"
| "f64_add PInf NInf = NaN"
| "f64_add NInf PInf = NaN"
| "f64_add PInf v = PInf"
| "f64_add NInf v = NInf"
| "f64_add u PInf = PInf"
| "f64_add u NInf = NInf"

definition f64_sub :: "float64 \<Rightarrow> float64 \<Rightarrow> float64" where
  "f64_sub u v = f64_add u (f64_neg v)"

text \<open>The sign of a value that is not NaN, and the infinity of a sign.\<close>

fun f64_sgn :: "float64 \<Rightarrow> int" where
  "f64_sgn (Finite x) = (if x < 0 then - 1 else if x = 0 then 0 else 1)"
| "f64_sgn PInf = 1"
| "f64_sgn NInf = - 1"
| "f64_sgn NaN = 0"

definition f64_inf :: "int \<Rightarrow> float64" where
  "f64_inf s = (if s = 0 then NaN else if 0 < s then PInf else NInf)"

fun f64_mul :: "float64 \<Rightarrow> float64 \<Rightarrow> float64" where
  "f64_mul (Finite x) (Finite y) = round64 (x * y)"
| "f64_mul NaN v = NaN"
| "f64_mul u NaN = NaN"
| "f64_mul u v = f64_inf (f64_sgn u * f64_sgn v)"

fun f64_div :: "float64 \<Rightarrow> float64 \<Rightarrow> float64" where
  "f64_div (Finite x) (Finite y) =
     (if y = 0 then f64_inf (f64_sgn (Finite x)) else round64 (x / y))"
| "f64_div NaN v = NaN"
| "f64_div u NaN = NaN"
| "f64_div (Finite x) v = Finite 0"
| "f64_div u (Finite y) = f64_inf (f64_sgn u * (if y < 0 then - 1 else 1))"
| "f64_div u v = NaN"

text \<open>\<^verbatim>\<open>u > v\<close> and \<^verbatim>\<open>u != v\<close>: a comparison with NaN is false, and NaN differs from everything.\<close>

fun f64_gt :: "float64 \<Rightarrow> float64 \<Rightarrow> bool" where
  "f64_gt (Finite x) (Finite y) = (y < x)"
| "f64_gt NaN v = False"
| "f64_gt u NaN = False"
| "f64_gt PInf PInf = False"
| "f64_gt PInf v = True"
| "f64_gt u PInf = False"
| "f64_gt NInf v = False"
| "f64_gt u NInf = True"

definition f64_ne :: "float64 \<Rightarrow> float64 \<Rightarrow> bool" where
  "f64_ne u v = (u = NaN \<or> v = NaN \<or> u \<noteq> v)"

text \<open>The conversion \<^verbatim>\<open>float64(n)\<close> of an \<^verbatim>\<open>int\<close>.\<close>

definition f64_of_int :: "int \<Rightarrow> float64" where
  "f64_of_int n = round64 (of_int n)"

subsection \<open>Data model\<close>

type_synonym ID = string

type_synonym Opinions = "bool list option"

record TxOpinion =
  TxHash :: ID
  Opinion :: bool

record etaResult =
  eta_value :: float64
  eta_count :: int

type_synonym etaMap = "(ID \<times> etaResult) list"

definition newEtaMap :: etaMap where
  "newEtaMap = []"

record tick =
  tick_index :: "64 word"
  tick_x :: float64

definition newTick :: "64 word \<Rightarrow> float64 \<Rightarrow> tick" where
  "newTick index random = \<lparr>tick_index = index, tick_x = random\<rparr>"

text \<open>
  Modelled from the spec: the type \<^verbatim>\<open>Parameters\<close> is declared outside the source
  file; its fields \<^verbatim>\<open>k\<close>, \<^verbatim>\<open>a\<close>, \<^verbatim>\<open>b\<close>, \<^verbatim>\<open>beta\<close>, \<^verbatim>\<open>m\<close>, \<^verbatim>\<open>l\<close> are the ones the
  source reads (section 3 of the spec, "Parameters").
\<close>

record Parameters =
  param_k :: int
  param_a :: float64
  param_b :: float64
  param_beta :: float64
  param_m :: int
  param_l :: int

text \<open>
  Modelled from the spec: the history store (\<^verbatim>\<open>OpinionMap\<close>, section 4.1) is declared
  outside the source file. \<^verbatim>\<open>Load\<close> returns the history and whether it exists,
  \<^verbatim>\<open>Store\<close> appends one opinion to the history of a tx, \<^verbatim>\<open>Delete\<close> removes it.
\<close>

type_synonym OpinionMap = "ID \<rightharpoonup> bool list"

definition Load :: "OpinionMap \<Rightarrow> ID \<Rightarrow> Opinions \<times> bool" where
  "Load oh tx = (case oh tx of None \<Rightarrow> (None, False) | Some h \<Rightarrow> (Some h, True))"

definition Store :: "OpinionMap \<Rightarrow> ID \<Rightarrow> bool \<Rightarrow> OpinionMap" where
  "Store oh tx opinion = oh(tx \<mapsto> (case oh tx of None \<Rightarrow> [] | Some h \<Rightarrow> h) @ [opinion])"

definition Delete :: "OpinionMap \<Rightarrow> ID \<Rightarrow> OpinionMap" where
  "Delete oh tx = oh(tx := None)"

text \<open>
  Modelled from the spec: the engine state (\<^verbatim>\<open>context\<close>, created by
  \<^verbatim>\<open>newContext\<close>) is declared outside the source file; the source reads its fields
  \<^verbatim>\<open>opinionHistory\<close>, \<^verbatim>\<open>activeTxs\<close>, \<^verbatim>\<open>parameters\<close> and \<^verbatim>\<open>tick\<close>; the waiting set
  is section 3 of the spec.
\<close>

record fpc_context =
  opinionHistory :: OpinionMap
  activeTxs :: etaMap
  waitingTxs :: "TxOpinion list"
  parameters :: Parameters
  tick :: tick

definition newContext :: "Parameters \<Rightarrow> fpc_context" where
  "newContext p =
     \<lparr>opinionHistory = Map.empty, activeTxs = newEtaMap, waitingTxs = [],
      parameters = p, tick = newTick 0 (Finite 0)\<rparr>"

text \<open>
  Modelled from the spec: \<^verbatim>\<open>pushTxs\<close> is defined outside the source file
  (section 4.2: push appends to the waiting set).
\<close>

definition pushTxs :: "fpc_context \<Rightarrow> TxOpinion list \<Rightarrow> fpc_context" where
  "pushTxs s txs = s\<lparr>waitingTxs := waitingTxs s @ txs\<rparr>"

text \<open>
  Modelled from the spec: \<^verbatim>\<open>popTxs\<close> is defined outside the source file
  (section 4.2: promote drains the waiting set, inserts each tx into the active set
  with the result \<open>{-1, 0}\<close> and a history holding the submitted opinion only; a later
  submission of the same tx overrides an earlier one; a tx that is already in the active
  set is ignored).
\<close>

fun popTxs_loop :: "etaMap \<Rightarrow> TxOpinion list \<Rightarrow> OpinionMap \<times> etaMap \<Rightarrow> OpinionMap \<times> etaMap" where
  "popTxs_loop act0 [] st = st"
| "popTxs_loop act0 (t # ts) (oh, act) =
     (if map_of act0 (TxHash t) \<noteq> None then popTxs_loop act0 ts (oh, act)
      else popTxs_loop act0 ts
             (oh(TxHash t \<mapsto> [Opinion t]),
              AList.update (TxHash t) \<lparr>eta_value = Finite (- 1), eta_count = 0\<rparr> act))"

definition popTxs :: "fpc_context \<Rightarrow> fpc_context" where
  "popTxs s =
     (case popTxs_loop (activeTxs s) (waitingTxs s) (opinionHistory s, activeTxs s) of
        (oh, act) \<Rightarrow> s\<lparr>opinionHistory := oh, activeTxs := act, waitingTxs := []\<rparr>)"

text \<open>
  Modelled from the spec: \<^verbatim>\<open>getActiveTxs\<close> is defined outside the source file
  (section 4.6: the sampler is called on the txs of the active set).
\<close>

definition getActiveTxs :: "fpc_context \<Rightarrow> ID list" where
  "getActiveTxs s = map fst (activeTxs s)"

text \<open>
  The instance. \<^verbatim>\<open>getKnownPeers\<close> is the snapshot that the call returns in the current
  round, \<^verbatim>\<open>queryNode\<close> the answer of a node to a query (only the length and the entries
  of an answer are read), \<^verbatim>\<open>finalizedTxsChannel\<close> the batches sent so far.
\<close>

record Instance =
  getKnownPeers :: "string list"
  queryNode :: "ID list \<Rightarrow> string \<Rightarrow> bool list"
  state :: fpc_context
  finalizedTxsChannel :: "TxOpinion list list"

definition New :: "string list \<Rightarrow> (ID list \<Rightarrow> string \<Rightarrow> bool list) \<Rightarrow> Parameters \<Rightarrow> Instance" where
  "New gkp qn p =
     \<lparr>getKnownPeers = gkp, queryNode = qn, state = newContext p, finalizedTxsChannel = []\<rparr>"

definition SubmitTxsForVoting :: "Instance \<Rightarrow> TxOpinion list \<Rightarrow> Instance" where
  "SubmitTxsForVoting fpc txs = fpc\<lparr>state := pushTxs (state fpc) txs\<rparr>"

subsection \<open>Last opinion and interim opinions\<close>

text \<open>
  \<^verbatim>\<open>getLastOpinion\<close> returns a value and an error (\<open>None\<close> is the \<^verbatim>\<open>nil\<close> error); it
  does not panic.
\<close>

definition getLastOpinion :: "Opinions \<Rightarrow> bool \<times> string option" where
  "getLastOpinion list =
     (case list of
        None \<Rightarrow> (False, Some ''opinion is empty'')
      | Some xs \<Rightarrow>
          (if length xs > 0 then (xs ! (length xs - 1), None)
           else (False, Some ''opinion is empty'')))"

text \<open>
  \<^verbatim>\<open>GetInterimOpinion\<close>: the result has one entry per requested tx, \<^verbatim>\<open>false\<close> at first;
  the entry of a tx with a history is overwritten by its last opinion.
\<close>

fun GetInterimOpinion_loop :: "OpinionMap \<Rightarrow> nat \<Rightarrow> ID list \<Rightarrow> bool list \<Rightarrow> bool list" where
  "GetInterimOpinion_loop oh i [] result = result"
| "GetInterimOpinion_loop oh i (tx # txs) result =
     (case Load oh tx of
        (history, ok) \<Rightarrow>
          if ok then GetInterimOpinion_loop oh (Suc i) txs (result[i := fst (getLastOpinion history)])
          else GetInterimOpinion_loop oh (Suc i) txs result)"

definition GetInterimOpinion :: "Instance \<Rightarrow> ID list \<Rightarrow> bool list" where
  "GetInterimOpinion fpc txs =
     GetInterimOpinion_loop (opinionHistory (state fpc)) 0 txs (replicate (length txs) False)"

subsection \<open>Thresholds and the update of the opinions\<close>

definition runif :: "float64 \<Rightarrow> float64 \<Rightarrow> float64 \<Rightarrow> float64" where
  "runif rand thresholdL thresholdU =
     f64_add thresholdL (f64_mul rand (f64_sub thresholdU thresholdL))"

text \<open>\<^verbatim>\<open>len(s)\<close>; the \<^verbatim>\<open>nil\<close> slice has length 0.\<close>

definition len_go :: "'a list option \<Rightarrow> nat" where
  "len_go s = (case s of None \<Rightarrow> 0 | Some xs \<Rightarrow> length xs)"

text \<open>The local variable \<^verbatim>\<open>threshold\<close> of \<^verbatim>\<open>updateOpinion\<close>, for a history of length \<open>n\<close>.\<close>

definition threshold :: "tick \<Rightarrow> Parameters \<Rightarrow> nat \<Rightarrow> float64" where
  "threshold t p n =
     (if n = 1 then runif (tick_x t) (param_a p) (param_b p)
      else runif (tick_x t) (param_beta p) (f64_sub (Finite 1) (param_beta p)))"

text \<open>
  The loop of \<^verbatim>\<open>updateOpinion\<close> over the active set. The last statement of its body,
  \<^verbatim>\<open>history = append(history, newOpinion)\<close>, assigns a local variable that is not read
  again, and has no counterpart here.
\<close>

fun updateOpinion_loop :: "tick \<Rightarrow> Parameters \<Rightarrow> etaMap \<Rightarrow> OpinionMap \<Rightarrow> OpinionMap" where
  "updateOpinion_loop t p [] oh = oh"
| "updateOpinion_loop t p ((tx, eta) # rest) oh =
     (case Load oh tx of
        (history, ok) \<Rightarrow>
          if ok \<and> f64_ne (eta_value eta) (Finite (- 1))
          then (let newOpinion = f64_gt (eta_value eta) (threshold t p (len_go history))
                in updateOpinion_loop t p rest (Store oh tx newOpinion))
          else updateOpinion_loop t p rest oh)"

definition updateOpinion :: "fpc_context \<Rightarrow> fpc_context" where
  "updateOpinion s =
     s\<lparr>opinionHistory := updateOpinion_loop (tick s) (parameters s) (activeTxs s) (opinionHistory s)\<rparr>"

subsection \<open>Finalization\<close>

fun isFinal_loop :: "bool \<Rightarrow> bool list \<Rightarrow> bool" where
  "isFinal_loop finalProposal [] = True"
| "isFinal_loop finalProposal (opinion # rest) =
     (if opinion \<noteq> finalProposal then False else isFinal_loop finalProposal rest)"

definition isFinal :: "Opinions \<Rightarrow> int \<Rightarrow> int \<Rightarrow> error + bool" where
  "isFinal os m l =
     (case os of
        None \<Rightarrow> Inr False
      | Some xs \<Rightarrow>
          if int (length xs) < wrap64 (m + l) then Inr False
          else (case index_go xs (wrap64 (int (length xs) - l)) of
                  Inl e \<Rightarrow> Inl e
                | Inr finalProposal \<Rightarrow>
                    (case slice_from xs (wrap64 (wrap64 (int (length xs) - l) + 1)) of
                       Inl e \<Rightarrow> Inl e
                     | Inr rest \<Rightarrow> Inr (isFinal_loop finalProposal rest))))"

text \<open>
  The test of \<^verbatim>\<open>getFinalizedTxs\<close> on a loaded history: \<^verbatim>\<open>isFinal(history[1:], m, l)\<close>.
  The \<^verbatim>\<open>nil\<close> slice has length 0, so \<^verbatim>\<open>history[1:]\<close> panics on it.
\<close>

definition history_isFinal :: "Opinions \<Rightarrow> int \<Rightarrow> int \<Rightarrow> error + bool" where
  "history_isFinal history m l =
     (case history of
        None \<Rightarrow> Inl SliceBoundsOutOfRange
      | Some h \<Rightarrow> (case slice_from h 1 of Inl e \<Rightarrow> Inl e | Inr h1 \<Rightarrow> isFinal (Some h1) m l))"

fun getFinalizedTxs_loop ::
  "Parameters \<Rightarrow> ID list \<Rightarrow> OpinionMap \<times> etaMap \<times> TxOpinion list \<Rightarrow>
   error + (OpinionMap \<times> etaMap \<times> TxOpinion list)" where
  "getFinalizedTxs_loop p [] st = Inr st"
| "getFinalizedTxs_loop p (tx # txs) (oh, act, finalized) =
     (let history = fst (Load oh tx) in
      case history_isFinal history (param_m p) (param_l p) of
        Inl e \<Rightarrow> Inl e
      | Inr True \<Rightarrow>
          (let lastOpinion = fst (getLastOpinion history) in
           getFinalizedTxs_loop p txs
             (Delete oh tx, AList.delete tx act,
              finalized @ [\<lparr>TxHash = tx, Opinion = lastOpinion\<rparr>]))
      | Inr False \<Rightarrow> getFinalizedTxs_loop p txs (oh, act, finalized))"

definition getFinalizedTxs :: "fpc_context \<Rightarrow> error + (fpc_context \<times> TxOpinion list)" where
  "getFinalizedTxs s =
     (case getFinalizedTxs_loop (parameters s) (map fst (activeTxs s))
             (opinionHistory s, activeTxs s, []) of
        Inl e \<Rightarrow> Inl e
      | Inr (oh, act, finalized) \<Rightarrow> Inr (s\<lparr>opinionHistory := oh, activeTxs := act\<rparr>, finalized))"

subsection \<open>The sampler\<close>

text \<open>
  \<^verbatim>\<open>calculateEtas\<close>: the first loop counts, for each tx, the votes and the positive
  votes; the second divides.
\<close>

definition calculateEtas_vote :: "TxOpinion \<Rightarrow> etaMap \<Rightarrow> etaMap" where
  "calculateEtas_vote vote allEtas =
     (let e = (case map_of allEtas (TxHash vote) of
                 None \<Rightarrow> \<lparr>eta_value = Finite 0, eta_count = 0\<rparr>
               | Some e \<Rightarrow> e)
      in AList.update (TxHash vote)
           \<lparr>eta_value = (if Opinion vote then f64_add (eta_value e) (Finite 1) else eta_value e),
            eta_count = eta_count e + 1\<rparr> allEtas)"

fun calculateEtas_loop :: "TxOpinion list \<Rightarrow> etaMap \<Rightarrow> etaMap" where
  "calculateEtas_loop [] allEtas = allEtas"
| "calculateEtas_loop (vote # votes) allEtas =
     calculateEtas_loop votes (calculateEtas_vote vote allEtas)"

definition calculateEtas :: "TxOpinion list \<Rightarrow> etaMap" where
  "calculateEtas votes =
     map (\<lambda>(tx, e). (tx, e\<lparr>eta_value := f64_div (eta_value e) (f64_of_int (eta_count e))\<rparr>))
       (calculateEtas_loop votes [])"

text \<open>
  \<^verbatim>\<open>rand.Intn(n)\<close> panics unless \<open>n > 0\<close>, and returns a number below \<open>n\<close> otherwise. The
  generator that \<^verbatim>\<open>choose\<close> creates is the sequence \<open>rnd\<close> of its raw draws.
\<close>

definition Intn :: "(nat \<Rightarrow> nat) \<Rightarrow> nat \<Rightarrow> int \<Rightarrow> error + nat" where
  "Intn rnd i n = (if n \<le> 0 then Inl IntnInvalidArgument else Inr (rnd i mod nat n))"

fun choose_loop :: "string list \<Rightarrow> (nat \<Rightarrow> nat) \<Rightarrow> nat \<Rightarrow> nat \<Rightarrow> error + string list" where
  "choose_loop list rnd i 0 = Inr []"
| "choose_loop list rnd i (Suc n) =
     (case Intn rnd i (int (length list)) of
        Inl e \<Rightarrow> Inl e
      | Inr j \<Rightarrow>
          (case index_go list (int j) of
             Inl e \<Rightarrow> Inl e
           | Inr node \<Rightarrow>
               (case choose_loop list rnd (Suc i) n of
                  Inl e \<Rightarrow> Inl e
                | Inr chosen \<Rightarrow> Inr (node # chosen))))"

text \<open>
  \<^verbatim>\<open>make([]string, k)\<close> panics when \<open>k\<close> is negative or when the \<open>k\<close> strings (16 bytes each)
  take more than the \<open>2^48\<close> bytes that the runtime can allocate. That the machine has the
  memory it is asked for is assumed, here and for the other allocations of the package.
\<close>

definition choose_nodes :: "string list \<Rightarrow> int \<Rightarrow> (nat \<Rightarrow> nat) \<Rightarrow> error + string list" where
  "choose_nodes list k rnd =
     (if k < 0 \<or> 2 ^ 48 < k * 16 then Inl MakeLenOutOfRange
      else choose_loop list rnd 0 (nat k))"

text \<open>The inner loop of \<^verbatim>\<open>querySample\<close>: the votes of one answer, attributed by position.\<close>

fun attribute_votes :: "ID list \<Rightarrow> bool list \<Rightarrow> nat \<Rightarrow> TxOpinion list \<Rightarrow> error + TxOpinion list" where
  "attribute_votes txs [] voteIdx result = Inr result"
| "attribute_votes txs (vote # votes) voteIdx result =
     (case index_go txs (int voteIdx) of
        Inl e \<Rightarrow> Inl e
      | Inr tx \<Rightarrow> attribute_votes txs votes (Suc voteIdx) (result @ [\<lparr>TxHash = tx, Opinion = vote\<rparr>]))"

text \<open>The outer loop: the \<open>k\<close> answers, in the order in which the channel delivers them.\<close>

fun merge_responses :: "ID list \<Rightarrow> bool list list \<Rightarrow> TxOpinion list \<Rightarrow> error + TxOpinion list" where
  "merge_responses txs [] result = Inr result"
| "merge_responses txs (votes # rest) result =
     (if length votes > 0
      then (case attribute_votes txs votes 0 result of
              Inl e \<Rightarrow> Inl e
            | Inr result' \<Rightarrow> merge_responses txs rest result')
      else merge_responses txs rest result)"

definition querySample ::
  "ID list \<Rightarrow> int \<Rightarrow> string list \<Rightarrow> (ID list \<Rightarrow> string \<Rightarrow> bool list) \<Rightarrow> (nat \<Rightarrow> nat) \<Rightarrow> error + etaMap" where
  "querySample txs k nodes qn rnd =
     (case choose_nodes nodes k rnd of
        Inl e \<Rightarrow> Inl e
      | Inr selectedNodes \<Rightarrow>
          (case merge_responses txs (map (qn txs) selectedNodes) [] of
             Inl e \<Rightarrow> Inl e
           | Inr result \<Rightarrow> Inr (calculateEtas result)))"

subsection \<open>The round and the tick\<close>

fun store_etas :: "etaMap \<Rightarrow> etaMap \<Rightarrow> etaMap" where
  "store_etas [] act = act"
| "store_etas ((tx, eta) # etas) act = store_etas etas (AList.update tx eta act)"

definition round_fpc :: "Instance \<Rightarrow> (nat \<Rightarrow> nat) \<Rightarrow> error + (Instance \<times> TxOpinion list)" where
  "round_fpc fpc rnd =
     (let s1 = popTxs (state fpc);
          s2 = updateOpinion s1
      in case getFinalizedTxs s2 of
           Inl e \<Rightarrow> Inl e
         | Inr (s3, finalized) \<Rightarrow>
             (case querySample (getActiveTxs s3) (param_k (parameters s3))
                     (getKnownPeers fpc) (queryNode fpc) rnd of
                Inl e \<Rightarrow> Inl e
              | Inr etas \<Rightarrow>
                  Inr (fpc\<lparr>state := s3\<lparr>activeTxs := store_etas etas (activeTxs s3)\<rparr>\<rparr>,
                       finalized)))"

text \<open>
  \<^verbatim>\<open>Tick\<close> stores the new tick and starts the round in a goroutine, which sends the
  finalized batch on the channel. Here the round runs to its end and the batch is appended
  to the batches sent; a panic of the goroutine is the result \<open>Inl\<close>.
\<close>

definition Tick :: "Instance \<Rightarrow> (nat \<Rightarrow> nat) \<Rightarrow> 64 word \<Rightarrow> float64 \<Rightarrow> error + Instance" where
  "Tick fpc rnd index random =
     (case round_fpc (fpc\<lparr>state := (state fpc)\<lparr>tick := newTick index random\<rparr>\<rparr>) rnd of
        Inl e \<Rightarrow> Inl e
      | Inr (fpc', finalized) \<Rightarrow>
          Inr (fpc'\<lparr>finalizedTxsChannel := finalizedTxsChannel fpc' @ [finalized]\<rparr>))"

subsection \<open>Vote counts\<close>

text \<open>The number of votes, and of positive votes, that a list of votes holds for a tx.\<close>

definition votes_for :: "ID \<Rightarrow> TxOpinion list \<Rightarrow> nat" where
  "votes_for tx votes = length (filter (\<lambda>v. TxHash v = tx) votes)"

definition positive_votes_for :: "ID \<Rightarrow> TxOpinion list \<Rightarrow> nat" where
  "positive_votes_for tx votes = length (filter (\<lambda>v. TxHash v = tx \<and> Opinion v) votes)"

text \<open>
  The value that \<^verbatim>\<open>value++\<close> reaches from 0 in \<open>n\<close> steps; below \<open>2^53\<close> it is \<open>n\<close>, every
  increment being exact.
\<close>

definition f64_count :: "nat \<Rightarrow> float64" where
  "f64_count n = ((\<lambda>v. f64_add v (Finite 1)) ^^ n) (Finite 0)"

subsection \<open>A concrete engine\<close>

text \<open>
  Parameters, peers and a state on which the theorems are instantiated: two active txs,
  \<open>t1\<close> with a sampled ratio and \<open>t2\<close> freshly promoted; every peer answers Like for
  every tx.
\<close>

definition example_params :: Parameters where
  "example_params =
     \<lparr>param_k = 2, param_a = Finite (1 / 4), param_b = Finite (3 / 4), param_beta = Finite (1 / 8),
      param_m = 1, param_l = 2\<rparr>"

definition example_state :: fpc_context where
  "example_state =
     \<lparr>opinionHistory = [''t1'' \<mapsto> [True], ''t2'' \<mapsto> [False]],
      activeTxs = [(''t1'', \<lparr>eta_value = Finite (1 / 2), eta_count = 2\<rparr>),
                   (''t2'', \<lparr>eta_value = Finite (- 1), eta_count = 0\<rparr>)],
      waitingTxs = [],
      parameters = example_params,
      tick = newTick 3 (Finite (1 / 2))\<rparr>"

definition example_qn :: "ID list \<Rightarrow> string \<Rightarrow> bool list" where
  "example_qn txs nodeID = replicate (length txs) True"

definition example_rnd :: "nat \<Rightarrow> nat" where
  "example_rnd i = i"

definition example_fpc :: Instance where
  "example_fpc =
     \<lparr>getKnownPeers = [''n1'', ''n2''], queryNode = example_qn, state = example_state,
      finalizedTxsChannel = []\<rparr>"

subsection \<open>Auxiliary notions\<close>

text \<open>The votes of one answer, attributed by position to the queried txs.\<close>

definition attributed :: "ID list \<Rightarrow> bool list \<Rightarrow> TxOpinion list" where
  "attributed txs votes = map (\<lambda>(tx, vote). \<lparr>TxHash = tx, Opinion = vote\<rparr>) (zip txs votes)"

text \<open>A peer whose answer is one entry longer than the query.\<close>

definition example_long_qn :: "ID list \<Rightarrow> string \<Rightarrow> bool list" where
  "example_long_qn txs nodeID = True # replicate (length txs) True"

text \<open>
  A tx is retired in a state that does not refer to it: it is neither active nor waiting,
  and the store holds no history for it. A sequence of ticks is a list of inputs: index and
  random of the tick, and what the collaborators return during its round (the snapshot of
  the peers, the answers of the peers, the draws of the generator of \<^verbatim>\<open>choose\<close>).
\<close>

definition retired :: "ID \<Rightarrow> fpc_context \<Rightarrow> bool" where
  "retired tx s \<longleftrightarrow>
     tx \<notin> fst ` set (activeTxs s) \<and> opinionHistory s tx = None \<and> tx \<notin> TxHash ` set (waitingTxs s)"



subsection \<open>Well-formed states\<close>

text \<open>
  The keys of the active set are distinct (it is a Go map), and every active tx has a
  non-empty history in the store (section 3 of the spec, first invariant).
\<close>

definition wf_context :: "fpc_context \<Rightarrow> bool" where
  "wf_context s \<longleftrightarrow>
     distinct (map fst (activeTxs s)) \<and>
     list_all (\<lambda>(tx, eta). case opinionHistory s tx of None \<Rightarrow> False | Some h \<Rightarrow> h \<noteq> [])
       (activeTxs s)"

text \<open>
  A Go slice has fewer than \<open>2^63\<close> entries. The histories of the active txs are short when
  this still holds after one more opinion is appended to each of them.
\<close>

definition short_histories :: "fpc_context \<Rightarrow> bool" where
  "short_histories s \<longleftrightarrow>
     list_all (\<lambda>(tx, eta). case opinionHistory s tx of None \<Rightarrow> True
                             | Some h \<Rightarrow> int (length h) + 1 < 2 ^ 63)
       (activeTxs s)"

subsection \<open>Concrete rounds\<close>


definition example_after :: Instance where
  "example_after =
     \<lparr>getKnownPeers = [''n1'', ''n2''], queryNode = example_qn,
      state = \<lparr>opinionHistory = [''t2'' \<mapsto> [False]],
               activeTxs = [(''t2'', \<lparr>eta_value = Finite 1, eta_count = 2\<rparr>)],
               waitingTxs = [],
               parameters = example_params,
               tick = newTick 4 (Finite (1 / 2))\<rparr>,
      finalizedTxsChannel = [[\<lparr>TxHash = ''t1'', Opinion = True\<rparr>]]\<rparr>"

definition example_next :: "64 word \<Rightarrow> float64 \<Rightarrow> Instance" where
  "example_next index random =
     \<lparr>getKnownPeers = [''n1'', ''n2''], queryNode = example_qn,
      state = \<lparr>opinionHistory = [''t2'' \<mapsto> [False, f64_gt (Finite 1) (runif random (Finite (1 / 4)) (Finite (3 / 4)))]],
               activeTxs = [(''t2'', \<lparr>eta_value = Finite 1, eta_count = 2\<rparr>)],
               waitingTxs = [],
               parameters = example_params,
               tick = newTick index random\<rparr>,
      finalizedTxsChannel = [[\<lparr>TxHash = ''t1'', Opinion = True\<rparr>], []]\<rparr>"


definition example_silent_qn :: "ID list \<Rightarrow> string \<Rightarrow> bool list" where
  "example_silent_qn txs nodeID = []"

definition example_silent :: Instance where
  "example_silent = example_after\<lparr>queryNode := example_silent_qn\<rparr>"

definition example_silent_after :: Instance where
  "example_silent_after =
     \<lparr>getKnownPeers = [''n1'', ''n2''], queryNode = example_silent_qn,
      state = \<lparr>opinionHistory = [''t2'' \<mapsto> [False, True]],
               activeTxs = [(''t2'', \<lparr>eta_value = Finite 1, eta_count = 2\<rparr>)],
               waitingTxs = [],
               parameters = example_params,
               tick = newTick 4 (Finite (1 / 2))\<rparr>,
      finalizedTxsChannel = [[\<lparr>TxHash = ''t1'', Opinion = True\<rparr>]]\<rparr>"

definition example_no_peers :: Instance where
  "example_no_peers =
     SubmitTxsForVoting (New [] example_qn (example_params\<lparr>param_k := 5\<rparr>))
       [\<lparr>TxHash = ''t1'', Opinion = True\<rparr>]"


subsection \<open>Rounded thresholds\<close>

text \<open>
  The float64 values of the literals \<^verbatim>\<open>0.05\<close>, \<^verbatim>\<open>0.3\<close> and \<^verbatim>\<open>0.9\<close>, and two states on which
  the rounding of the threshold shows: in \<open>example_rounded\<close> the parameter \<open>\<beta>\<close> is \<^verbatim>\<open>0.05\<close>,
  the tick value is \<open>1/2\<close>, and \<open>t1\<close> has a history of length 2 and the ratio \<open>1/2\<close>;
  \<open>example_params_wide\<close> has \<open>a\<close> = \<^verbatim>\<open>0.3\<close> and \<open>b\<close> = \<^verbatim>\<open>0.9\<close>.
\<close>

definition lit_0_05 :: real where
  "lit_0_05 = 3602879701896397 / 2 ^ 56"

definition lit_0_3 :: real where
  "lit_0_3 = 5404319552844595 / 2 ^ 54"

definition lit_0_9 :: real where
  "lit_0_9 = 8106479329266893 / 2 ^ 53"

definition example_rounded :: fpc_context where
  "example_rounded =
     \<lparr>opinionHistory = [''t1'' \<mapsto> [True, True]],
      activeTxs = [(''t1'', \<lparr>eta_value = Finite (1 / 2), eta_count = 2\<rparr>)],
      waitingTxs = [],
      parameters = example_params\<lparr>param_beta := Finite lit_0_05\<rparr>,
      tick = newTick 3 (Finite (1 / 2))\<rparr>"


subsection \<open>The phases of a concrete round\<close>

text \<open>
  The states of the round that the tick \<open>(4, 1/2)\<close> starts on \<open>example_final\<close>: after the
  update phase, where \<open>t1\<close> has four Like opinions, and after the finalize phase, which
  retires \<open>t1\<close>.
\<close>

definition example_updated :: fpc_context where
  "example_updated =
     \<lparr>opinionHistory = [''t2'' \<mapsto> [False], ''t1'' \<mapsto> [True, True, True, True]],
      activeTxs = [(''t1'', \<lparr>eta_value = Finite 1, eta_count = 2\<rparr>),
                   (''t2'', \<lparr>eta_value = Finite (- 1), eta_count = 0\<rparr>)],
      waitingTxs = [],
      parameters = example_params,
      tick = newTick 4 (Finite (1 / 2))\<rparr>"

definition example_finalized :: fpc_context where
  "example_finalized =
     \<lparr>opinionHistory = [''t2'' \<mapsto> [False]],
      activeTxs = [(''t2'', \<lparr>eta_value = Finite (- 1), eta_count = 0\<rparr>)],
      waitingTxs = [],
      parameters = example_params,
      tick = newTick 4 (Finite (1 / 2))\<rparr>"

section \<open>Verification\<close>

subsection \<open>Rounding\<close>

lemma round_even_of_int [simp]: "round_even (of_int n) = n"
  by (simp add: round_even_def)

lemma round_even_near: "\<bar>of_int (round_even y) - y\<bar> \<le> 1 / 2"
proof -
  have "of_int \<lfloor>y\<rfloor> \<le> y" "y < of_int \<lfloor>y\<rfloor> + 1" by linarith+
  then show ?thesis by (auto simp: round_even_def Let_def)
qed

lemma powi_less_cancel: "(2::real) powi a \<le> y \<Longrightarrow> y < 2 powi b \<Longrightarrow> a < b"
proof (rule ccontr)
  assume a: "2 powi a \<le> y" "y < 2 powi b" and "\<not> a < b"
  then have "b \<le> a" by simp
  then have "(2::real) powi b \<le> 2 powi a" by (intro power_int_increasing) auto
  with a show False by linarith
qed

lemma exponent_up_le: "e \<le> n \<Longrightarrow> y < 2 powi (n + 1) \<Longrightarrow> exponent_up k y e \<le> n"
proof (induction k arbitrary: e)
  case 0
  then show ?case by simp
next
  case (Suc k)
  show ?case
  proof (cases "y < 2 powi (e + 1)")
    case True
    then show ?thesis using Suc.prems by simp
  next
    case False
    then have "2 powi (e + 1) \<le> y" by simp
    from powi_less_cancel [OF this Suc.prems(2)] have "e + 1 \<le> n" by simp
    from Suc.IH [OF this Suc.prems(2)] False show ?thesis by simp
  qed
qed

lemma exponent_down_le: "y < 2 powi (n + 1) \<Longrightarrow> e - int k \<le> n \<Longrightarrow> exponent_down k y e \<le> n"
proof (induction k arbitrary: e)
  case 0
  then show ?case by simp
next
  case (Suc k)
  show ?case
  proof (cases "2 powi e \<le> y")
    case True
    from powi_less_cancel [OF True Suc.prems(1)] True show ?thesis by simp
  next
    case False
    have "e - 1 - int k \<le> n" using Suc.prems(2) by simp
    from Suc.IH [OF Suc.prems(1) this] False show ?thesis by simp
  qed
qed

lemma exponent_le:
  assumes "y < 2 powi (n + 1)" and "- 1022 \<le> n"
  shows "exponent y \<le> n"
proof (cases "1 \<le> y")
  case True
  have "(2::real) powi 0 \<le> y" using True by simp
  from powi_less_cancel [OF this assms(1)] have "0 \<le> n" by simp
  from exponent_up_le [OF this assms(1)] True show ?thesis by (simp add: exponent_def)
next
  case False
  have "- 1 - int 1021 \<le> n" using assms(2) by simp
  from exponent_down_le [OF assms(1) this] False show ?thesis by (simp add: exponent_def)
qed

lemma exponent_up_ge: "e \<le> exponent_up k y e"
proof (induction k arbitrary: e)
  case 0
  then show ?case by simp
next
  case (Suc k)
  have "e + 1 \<le> exponent_up k y (e + 1)" by (rule Suc.IH)
  then show ?case by simp
qed

lemma exponent_up_eq:
  "e0 \<le> e \<Longrightarrow> e - e0 \<le> int k \<Longrightarrow> 2 powi e \<le> y \<Longrightarrow> y < 2 powi (e + 1) \<Longrightarrow> exponent_up k y e0 = e"
proof (induction k arbitrary: e0)
  case 0
  then show ?case by simp
next
  case (Suc k)
  show ?case
  proof (cases "y < 2 powi (e0 + 1)")
    case True
    from powi_less_cancel [OF Suc.prems(3) True] Suc.prems(1) True show ?thesis by simp
  next
    case False
    then have "2 powi (e0 + 1) \<le> y" by simp
    from powi_less_cancel [OF this Suc.prems(4)] have 1: "e0 + 1 \<le> e" by simp
    have 2: "e - (e0 + 1) \<le> int k" using Suc.prems(2) by simp
    from Suc.IH [OF 1 2 Suc.prems(3,4)] False show ?thesis by simp
  qed
qed

lemma exponent_down_eq:
  "e \<le> e0 \<Longrightarrow> e0 - e \<le> int k \<Longrightarrow> 2 powi e \<le> y \<Longrightarrow> y < 2 powi (e + 1) \<Longrightarrow> exponent_down k y e0 = e"
proof (induction k arbitrary: e0)
  case 0
  then show ?case by simp
next
  case (Suc k)
  show ?case
  proof (cases "2 powi e0 \<le> y")
    case True
    from powi_less_cancel [OF True Suc.prems(4)] Suc.prems(1) True show ?thesis by simp
  next
    case False
    then have "e \<noteq> e0" using Suc.prems(3) by auto
    with Suc.prems(1) have 1: "e \<le> e0 - 1" by simp
    have 2: "e0 - 1 - e \<le> int k" using Suc.prems(2) by simp
    from Suc.IH [OF 1 2 Suc.prems(3,4)] False show ?thesis by simp
  qed
qed

lemma exponent_eq:
  assumes "- 1022 \<le> e" "e \<le> 1023" "2 powi e \<le> y" "y < 2 powi (e + 1)"
  shows "exponent y = e"
proof (cases "1 \<le> y")
  case True
  have "(2::real) powi 0 \<le> y" using True by simp
  from powi_less_cancel [OF this assms(4)] have 1: "0 \<le> e" by simp
  have 2: "e - 0 \<le> int 1023" using assms(2) by simp
  from exponent_up_eq [OF 1 2 assms(3,4)] True show ?thesis by (simp add: exponent_def)
next
  case False
  then have "y < 2 powi 0" by simp
  from powi_less_cancel [OF assms(3) this] have 1: "e \<le> - 1" by simp
  have 2: "- 1 - e \<le> int 1021" using assms(1) by simp
  from exponent_down_eq [OF 1 2 assms(3,4)] False show ?thesis by (simp add: exponent_def)
qed

lemma round_even_le: "y \<le> of_int n \<Longrightarrow> round_even y \<le> n"
proof -
  assume a: "y \<le> of_int n"
  have f: "of_int \<lfloor>y\<rfloor> \<le> y" "y < of_int \<lfloor>y\<rfloor> + 1" by linarith+
  have "\<lfloor>y\<rfloor> \<le> n" using a f by linarith
  moreover have "\<lfloor>y\<rfloor> = n \<Longrightarrow> y = of_int n" using a f by linarith
  ultimately show ?thesis
    by (cases "\<lfloor>y\<rfloor> = n") (auto simp: round_even_def Let_def)
qed

lemma round_even_ge: "of_int n \<le> y \<Longrightarrow> n \<le> round_even y"
proof -
  assume a: "of_int n \<le> y"
  then have "n \<le> \<lfloor>y\<rfloor>" by (simp add: le_floor_iff)
  then show ?thesis by (auto simp: round_even_def Let_def)
qed

lemma round64_exact:
  assumes x: "x = of_int m * 2 powi q" and m: "\<bar>m\<bar> < 2 ^ 53" and q: "- 1074 \<le> q" "q \<le> 971"
  shows "round64 x = Finite x"
proof -
  define e where "e = exponent \<bar>x\<bar>"
  have "\<bar>x\<bar> = of_int \<bar>m\<bar> * 2 powi q" by (simp add: x abs_mult)
  also have "\<dots> < 2 ^ 53 * 2 powi q"
  proof -
    have "(of_int \<bar>m\<bar> :: real) < of_int (2 ^ 53)" using m by (simp only: of_int_less_iff)
    then show ?thesis by (intro mult_strict_right_mono) auto
  qed
  also have "\<dots> = 2 powi (q + 52 + 1)"
    by (simp add: power_int_add)
  finally have lt: "\<bar>x\<bar> < 2 powi (q + 52 + 1)" .
  have "e \<le> q + 52" unfolding e_def using lt q by (intro exponent_le) auto
  then obtain k where k: "q - (e - 52) = int k"
    by (metis diff_ge_0_iff_ge diff_right_mono nonneg_int_cases add_diff_cancel_right')
  have "x / 2 powi (e - 52) = of_int m * 2 powi (q - (e - 52))"
    by (simp add: x power_int_diff)
  also have "\<dots> = of_int (m * 2 ^ k)" by (simp add: k)
  finally have d: "x / 2 powi (e - 52) = of_int (m * 2 ^ k)" .
  have r: "of_int (round_even (x / 2 powi (e - 52))) * 2 powi (e - 52) = x"
    unfolding d round_even_of_int unfolding d [symmetric] by simp
  have "\<bar>x\<bar> < 2 ^ 1024"
  proof -
    have "(2::real) powi (q + 52 + 1) \<le> 2 powi 1024" using q by (intro power_int_increasing) auto
    with lt show ?thesis by simp
  qed
  then show ?thesis
    by (simp add: round64_def Let_def e_def [symmetric] r) linarith
qed

lemma round64_near:
  assumes "\<bar>x\<bar> < 2"
  shows "\<exists>r. round64 x = Finite r \<and> \<bar>r - x\<bar> \<le> 1 / 2 ^ 53"
proof -
  define e where "e = exponent \<bar>x\<bar>"
  define Q :: real where "Q = 2 powi (e - 52)"
  define r where "r = of_int (round_even (x / Q)) * Q"
  have "\<bar>x\<bar> < 2 powi (0 + 1)" using assms by simp
  then have "e \<le> 0" unfolding e_def by (intro exponent_le) auto
  then have Q52: "Q \<le> 2 powi (- 52)" unfolding Q_def by (intro power_int_increasing) auto
  have Qpos: "0 < Q" by (simp add: Q_def)
  have "r - x = (of_int (round_even (x / Q)) - x / Q) * Q"
    using Qpos by (simp add: r_def left_diff_distrib)
  then have "\<bar>r - x\<bar> = \<bar>of_int (round_even (x / Q)) - x / Q\<bar> * Q"
    using Qpos by (simp add: abs_mult)
  also have "\<dots> \<le> (1 / 2) * Q"
    using Qpos round_even_near [of "x / Q"] by (intro mult_right_mono) auto
  also have "\<dots> \<le> (1 / 2) * 2 powi (- 52)" using Q52 by simp
  also have "\<dots> = 1 / 2 ^ 53" by (simp add: power_int_minus field_simps)
  finally have near: "\<bar>r - x\<bar> \<le> 1 / 2 ^ 53" .
  have "(1::real) / 2 ^ 53 \<le> 1" by simp
  with near have "\<bar>r - x\<bar> \<le> 1" by linarith
  with assms have "\<bar>r\<bar> < 3" by linarith
  moreover have "(3::real) < 2 ^ 1024" by simp
  ultimately have "\<not> 2 ^ 1024 \<le> r" "\<not> r \<le> - (2 ^ 1024)" by linarith+
  then have "round64 x = Finite r"
    by (simp add: round64_def Let_def e_def [symmetric] Q_def [symmetric] r_def [symmetric])
  with near show ?thesis by blast
qed

lemma round64_eval:
  assumes e: "- 1022 \<le> e" "e \<le> 1022" and x: "2 powi e \<le> \<bar>x\<bar>" "\<bar>x\<bar> < 2 powi (e + 1)"
  shows "round64 x = Finite (of_int (round_even (x / 2 powi (e - 52))) * 2 powi (e - 52))"
proof -
  define Q :: real where "Q = 2 powi (e - 52)"
  define r where "r = of_int (round_even (x / Q)) * Q"
  have ex: "exponent \<bar>x\<bar> = e" using e x by (intro exponent_eq) auto
  have Qpos: "0 < Q" by (simp add: Q_def)
  have Q53: "2 ^ 53 * Q = 2 powi (e + 1)" by (simp add: Q_def power_int_diff power_int_add)
  have "x / Q \<le> of_int (2 ^ 53)" "of_int (- (2 ^ 53)) \<le> x / Q"
    using x(2) Qpos Q53 by (simp_all add: field_simps abs_less_iff)
  then have "round_even (x / Q) \<le> 2 ^ 53" "- (2 ^ 53) \<le> round_even (x / Q)"
    by (simp_all only: round_even_le round_even_ge)
  then have "\<bar>of_int (round_even (x / Q)) :: real\<bar> \<le> 2 ^ 53"
    by (simp add: abs_le_iff)
  then have "\<bar>r\<bar> \<le> 2 ^ 53 * Q" using Qpos by (simp add: r_def abs_mult)
  also have "\<dots> \<le> 2 powi 1023" unfolding Q53 using e by (intro power_int_increasing) auto
  finally have "\<bar>r\<bar> \<le> 2 ^ 1023" by simp
  moreover have "(2::real) ^ 1023 < 2 ^ 1024" by simp
  ultimately have "\<not> 2 ^ 1024 \<le> r" "\<not> r \<le> - (2 ^ 1024)" by linarith+
  then show ?thesis
    by (simp add: round64_def Let_def ex Q_def [symmetric] r_def [symmetric])
qed


subsection \<open>The finalization rule\<close>

lemma wrap64_id: "- (2 ^ 63) \<le> i \<Longrightarrow> i < 2 ^ 63 \<Longrightarrow> wrap64 i = i"
  by (simp add: wrap64_def)

lemma isFinal_loop_iff: "isFinal_loop fp xs = (\<forall>x \<in> set xs. x = fp)"
  by (induction xs) auto

lemma isFinal_Some:
  assumes "0 \<le> m" "1 \<le> l" "m + l < 2 ^ 63" "int (length t) < 2 ^ 63"
  shows "isFinal (Some t) m l =
         Inr (m + l \<le> int (length t) \<and> (\<forall>u \<in> set (drop (length t - nat l) t). \<forall>v \<in> set (drop (length t - nat l) t). u = v))"
proof -
  have w1: "wrap64 (m + l) = m + l" using assms by (intro wrap64_id) auto
  have w2: "wrap64 (int (length t) - l) = int (length t) - l" using assms by (intro wrap64_id) auto
  show ?thesis
  proof (cases "int (length t) < m + l")
    case True
    then show ?thesis by (simp add: isFinal_def w1)
  next
    case False
    define i where "i = length t - nat l"
    have i: "i < length t" "nat (int (length t) - l) = i" "nat (int (length t) - l + 1) = Suc i"
      and l: "l \<le> int (length t)" "0 < l"
      using False assms by (auto simp: i_def)
    have w3: "wrap64 (int (length t) - l + 1) = int (length t) - l + 1"
      using assms l by (intro wrap64_id) auto
    have d: "drop i t = t ! i # drop (Suc i) t"
      using i(1) by (simp add: Cons_nth_drop_Suc)
    have "isFinal (Some t) m l = Inr (isFinal_loop (t ! i) (drop (Suc i) t))"
      using False l by (simp add: isFinal_def w1 w2 w3 index_go_def slice_from_def i)
    also have "isFinal_loop (t ! i) (drop (Suc i) t) = (\<forall>u \<in> set (drop i t). \<forall>v \<in> set (drop i t). u = v)"
      unfolding isFinal_loop_iff d by auto
    finally show ?thesis using False by (simp add: i_def)
  qed
qed

lemma history_isFinal_Some:
  assumes "0 \<le> m" "1 \<le> l" "m + l < 2 ^ 63" "int (length h) < 2 ^ 63"
  shows "(history_isFinal (Some h) m l = Inr True) =
         (m + l + 1 \<le> int (length h) \<and> (\<forall>u \<in> set (drop (length h - nat l) h). \<forall>v \<in> set (drop (length h - nat l) h). u = v))"
proof (cases h)
  case Nil
  then show ?thesis using assms by (simp add: history_isFinal_def slice_from_def)
next
  case (Cons x t)
  have eq: "history_isFinal (Some h) m l = isFinal (Some t) m l"
    by (simp add: Cons history_isFinal_def slice_from_def)
  have t: "int (length t) < 2 ^ 63" using assms(4) by (simp add: Cons)
  note F = isFinal_Some [OF assms(1,2,3) t]
  show ?thesis
  proof (cases "m + l \<le> int (length t)")
    case True
    then have "nat l \<le> length t" using assms by linarith
    then have "drop (length h - nat l) h = drop (length t - nat l) t"
      by (simp add: Cons Suc_diff_le)
    then show ?thesis
      unfolding eq F using True by (simp add: Cons)
  next
    case False
    then show ?thesis
      unfolding eq F by (simp add: Cons)
  qed
qed

lemma getLastOpinion_Some: "h \<noteq> [] \<Longrightarrow> getLastOpinion (Some h) = (last h, None)"
  by (simp add: getLastOpinion_def last_conv_nth)

lemma history_isFinal_total:
  assumes "0 \<le> m" "1 \<le> l" "m + l < 2 ^ 63" "int (length h) < 2 ^ 63" "h \<noteq> []"
  shows "\<exists>b. history_isFinal (Some h) m l = Inr b"
proof (cases h)
  case Nil
  with assms show ?thesis by simp
next
  case (Cons x t)
  have t: "int (length t) < 2 ^ 63" using assms(4) by (simp add: Cons)
  show ?thesis
    by (simp add: Cons history_isFinal_def slice_from_def isFinal_Some [OF assms(1,2,3) t])
qed

lemma getFinalizedTxs_loop_Cons:
  assumes "getFinalizedTxs_loop p (tx # txs) (oh, act, fin) = Inr r"
  shows "getFinalizedTxs_loop p txs (oh, act, fin) = Inr r
       \<or> getFinalizedTxs_loop p txs
           (Delete oh tx, AList.delete tx act,
            fin @ [\<lparr>TxHash = tx, Opinion = fst (getLastOpinion (fst (Load oh tx)))\<rparr>]) = Inr r"
proof (cases "history_isFinal (fst (Load oh tx)) (param_m p) (param_l p)")
  case (Inl e)
  with assms show ?thesis by simp
next
  case (Inr b)
  with assms show ?thesis by (cases b) simp_all
qed

lemma getFinalizedTxs_loop_None:
  "getFinalizedTxs_loop p txs (oh, act, fin) = Inr (oh', act', fin') \<Longrightarrow> oh x = None \<Longrightarrow> oh' x = None"
proof (induction txs arbitrary: oh act fin)
  case Nil
  then show ?case by simp
next
  case (Cons tx txs)
  from getFinalizedTxs_loop_Cons [OF Cons.prems(1)] show ?case
  proof
    assume "getFinalizedTxs_loop p txs (oh, act, fin) = Inr (oh', act', fin')"
    then show ?thesis using Cons.prems(2) by (rule Cons.IH)
  next
    assume "getFinalizedTxs_loop p txs
           (Delete oh tx, AList.delete tx act,
            fin @ [\<lparr>TxHash = tx, Opinion = fst (getLastOpinion (fst (Load oh tx)))\<rparr>]) = Inr (oh', act', fin')"
    moreover have "Delete oh tx x = None" using Cons.prems(2) by (simp add: Delete_def)
    ultimately show ?thesis by (rule Cons.IH)
  qed
qed

lemma keys_delete: "fst ` set (AList.delete k al) = fst ` set al - {k}"
  by (auto simp: AList.delete_eq)

lemma getFinalizedTxs_loop_keys:
  "getFinalizedTxs_loop p txs (oh, act, fin) = Inr (oh', act', fin') \<Longrightarrow>
   fst ` set act' \<subseteq> fst ` set act \<and> (distinct (map fst act) \<longrightarrow> distinct (map fst act'))"
proof (induction txs arbitrary: oh act fin)
  case Nil
  then show ?case by simp
next
  case (Cons tx txs)
  from getFinalizedTxs_loop_Cons [OF Cons.prems(1)] show ?case
  proof
    assume "getFinalizedTxs_loop p txs (oh, act, fin) = Inr (oh', act', fin')"
    then show ?thesis by (rule Cons.IH)
  next
    assume "getFinalizedTxs_loop p txs
           (Delete oh tx, AList.delete tx act,
            fin @ [\<lparr>TxHash = tx, Opinion = fst (getLastOpinion (fst (Load oh tx)))\<rparr>]) = Inr (oh', act', fin')"
    from Cons.IH [OF this]
    have "fst ` set act' \<subseteq> fst ` set (AList.delete tx act)"
      and "distinct (map fst (AList.delete tx act)) \<longrightarrow> distinct (map fst act')" by simp_all
    then show ?thesis using distinct_delete [of act tx] by (auto simp: keys_delete)
  qed
qed

lemma getFinalizedTxs_loop_same:
  "getFinalizedTxs_loop p txs (oh, act, fin) = Inr (oh', act', fin') \<Longrightarrow>
   x \<in> fst ` set act' \<Longrightarrow> oh' x = oh x"
proof (induction txs arbitrary: oh act fin)
  case Nil
  then show ?case by simp
next
  case (Cons tx txs)
  from getFinalizedTxs_loop_Cons [OF Cons.prems(1)] show ?case
  proof
    assume "getFinalizedTxs_loop p txs (oh, act, fin) = Inr (oh', act', fin')"
    then show ?thesis using Cons.prems(2) by (rule Cons.IH)
  next
    assume a: "getFinalizedTxs_loop p txs
           (Delete oh tx, AList.delete tx act,
            fin @ [\<lparr>TxHash = tx, Opinion = fst (getLastOpinion (fst (Load oh tx)))\<rparr>]) = Inr (oh', act', fin')"
    from getFinalizedTxs_loop_keys [OF a] Cons.prems(2) have "x \<noteq> tx" by (auto simp: keys_delete)
    moreover from a Cons.prems(2) have "oh' x = Delete oh tx x" by (rule Cons.IH)
    ultimately show ?thesis by (simp add: Delete_def)
  qed
qed

lemma getFinalizedTxs_loop_new:
  "getFinalizedTxs_loop p txs (oh, act, fin) = Inr (oh', act', fin') \<Longrightarrow>
   \<exists>new. fin' = fin @ new \<and> TxHash ` set new \<subseteq> set txs
        \<and> (\<forall>x \<in> TxHash ` set new. oh' x = None \<and> x \<notin> fst ` set act')"
proof (induction txs arbitrary: oh act fin)
  case Nil
  then show ?case by simp
next
  case (Cons tx txs)
  from getFinalizedTxs_loop_Cons [OF Cons.prems(1)] show ?case
  proof
    assume "getFinalizedTxs_loop p txs (oh, act, fin) = Inr (oh', act', fin')"
    from Cons.IH [OF this] obtain new where "fin' = fin @ new" "TxHash ` set new \<subseteq> set txs"
      "\<forall>x \<in> TxHash ` set new. oh' x = None \<and> x \<notin> fst ` set act'" by blast
    then show ?thesis by (intro exI [of _ new]) auto
  next
    let ?t = "\<lparr>TxHash = tx, Opinion = fst (getLastOpinion (fst (Load oh tx)))\<rparr>"
    assume a: "getFinalizedTxs_loop p txs (Delete oh tx, AList.delete tx act, fin @ [?t]) = Inr (oh', act', fin')"
    from Cons.IH [OF this] obtain new where new: "fin' = (fin @ [?t]) @ new" "TxHash ` set new \<subseteq> set txs"
      "\<forall>x \<in> TxHash ` set new. oh' x = None \<and> x \<notin> fst ` set act'" by blast
    have "oh' tx = None"
      using getFinalizedTxs_loop_None [OF a, of tx] by (simp add: Delete_def)
    moreover have "tx \<notin> fst ` set act'"
      using getFinalizedTxs_loop_keys [OF a] by (auto simp: keys_delete)
    ultimately show ?thesis using new by (intro exI [of _ "?t # new"]) auto
  qed
qed


lemma getFinalizedTxs_loop_step:
  assumes "getFinalizedTxs_loop p (tx # txs) (oh, act, fin) = Inr r"
  shows "(history_isFinal (fst (Load oh tx)) (param_m p) (param_l p) = Inr False
            \<and> getFinalizedTxs_loop p txs (oh, act, fin) = Inr r)
       \<or> (history_isFinal (fst (Load oh tx)) (param_m p) (param_l p) = Inr True
            \<and> getFinalizedTxs_loop p txs
                (Delete oh tx, AList.delete tx act,
                 fin @ [\<lparr>TxHash = tx, Opinion = fst (getLastOpinion (fst (Load oh tx)))\<rparr>]) = Inr r)"
proof (cases "history_isFinal (fst (Load oh tx)) (param_m p) (param_l p)")
  case (Inl e)
  with assms show ?thesis by simp
next
  case (Inr b)
  with assms show ?thesis by (cases b) simp_all
qed

lemma Load_Delete: "x \<noteq> tx \<Longrightarrow> Load (Delete oh tx) x = Load oh x"
  by (simp add: Load_def Delete_def)

lemma getFinalizedTxs_loop_keep:
  "getFinalizedTxs_loop p txs (oh, act, fin) = Inr (oh', act', fin') \<Longrightarrow>
   history_isFinal (fst (Load oh x)) (param_m p) (param_l p) \<noteq> Inr True \<Longrightarrow> oh' x = oh x"
proof (induction txs arbitrary: oh act fin)
  case Nil
  then show ?case by simp
next
  case (Cons tx txs)
  from getFinalizedTxs_loop_step [OF Cons.prems(1)] show ?case
  proof (elim disjE conjE)
    assume "getFinalizedTxs_loop p txs (oh, act, fin) = Inr (oh', act', fin')"
    then show ?thesis using Cons.prems(2) by (rule Cons.IH)
  next
    assume f: "history_isFinal (fst (Load oh tx)) (param_m p) (param_l p) = Inr True"
      and a: "getFinalizedTxs_loop p txs
           (Delete oh tx, AList.delete tx act,
            fin @ [\<lparr>TxHash = tx, Opinion = fst (getLastOpinion (fst (Load oh tx)))\<rparr>]) = Inr (oh', act', fin')"
    from f Cons.prems(2) have n: "x \<noteq> tx" by auto
    have "history_isFinal (fst (Load (Delete oh tx) x)) (param_m p) (param_l p) \<noteq> Inr True"
      using Cons.prems(2) by (simp add: Load_Delete [OF n])
    with a have "oh' x = Delete oh tx x" by (rule Cons.IH)
    with n show ?thesis by (simp add: Delete_def)
  qed
qed

lemma getFinalizedTxs_loop_fin:
  "distinct txs \<Longrightarrow> getFinalizedTxs_loop p txs (oh, act, fin) = Inr (oh', act', fin') \<Longrightarrow>
   fin' = fin @ map (\<lambda>tx. \<lparr>TxHash = tx, Opinion = fst (getLastOpinion (fst (Load oh tx)))\<rparr>)
                  (filter (\<lambda>tx. history_isFinal (fst (Load oh tx)) (param_m p) (param_l p) = Inr True) txs)"
proof (induction txs arbitrary: oh act fin)
  case Nil
  then show ?case by simp
next
  case (Cons tx txs)
  from Cons.prems(1) have d: "distinct txs" and n: "tx \<notin> set txs" by simp_all
  from getFinalizedTxs_loop_step [OF Cons.prems(2)] show ?case
  proof (elim disjE conjE)
    assume f: "history_isFinal (fst (Load oh tx)) (param_m p) (param_l p) = Inr False"
      and a: "getFinalizedTxs_loop p txs (oh, act, fin) = Inr (oh', act', fin')"
    from Cons.IH [OF d a] f show ?thesis by simp
  next
    let ?t = "\<lparr>TxHash = tx, Opinion = fst (getLastOpinion (fst (Load oh tx)))\<rparr>"
    assume f: "history_isFinal (fst (Load oh tx)) (param_m p) (param_l p) = Inr True"
      and a: "getFinalizedTxs_loop p txs (Delete oh tx, AList.delete tx act, fin @ [?t]) = Inr (oh', act', fin')"
    have same: "\<And>x. x \<in> set txs \<Longrightarrow> Load (Delete oh tx) x = Load oh x"
      using n by (intro Load_Delete) auto
    have 1: "filter (\<lambda>x. history_isFinal (fst (Load (Delete oh tx) x)) (param_m p) (param_l p) = Inr True) txs
           = filter (\<lambda>x. history_isFinal (fst (Load oh x)) (param_m p) (param_l p) = Inr True) txs"
      by (rule filter_cong) (simp_all add: same)
    have 2: "map (\<lambda>x. \<lparr>TxHash = x, Opinion = fst (getLastOpinion (fst (Load (Delete oh tx) x)))\<rparr>)
               (filter (\<lambda>x. history_isFinal (fst (Load oh x)) (param_m p) (param_l p) = Inr True) txs)
           = map (\<lambda>x. \<lparr>TxHash = x, Opinion = fst (getLastOpinion (fst (Load oh x)))\<rparr>)
               (filter (\<lambda>x. history_isFinal (fst (Load oh x)) (param_m p) (param_l p) = Inr True) txs)"
      by (rule map_cong) (simp_all add: same)
    from Cons.IH [OF d a] show ?thesis unfolding 1 2 using f by simp
  qed
qed

lemma getFinalizedTxs_loop_map_of:
  "getFinalizedTxs_loop p txs (oh, act, fin) = Inr (oh', act', fin') \<Longrightarrow>
   x \<in> fst ` set act' \<Longrightarrow> map_of act' x = map_of act x"
proof (induction txs arbitrary: oh act fin)
  case Nil
  then show ?case by simp
next
  case (Cons tx txs)
  from getFinalizedTxs_loop_Cons [OF Cons.prems(1)] show ?case
  proof
    assume "getFinalizedTxs_loop p txs (oh, act, fin) = Inr (oh', act', fin')"
    then show ?thesis using Cons.prems(2) by (rule Cons.IH)
  next
    assume a: "getFinalizedTxs_loop p txs
           (Delete oh tx, AList.delete tx act,
            fin @ [\<lparr>TxHash = tx, Opinion = fst (getLastOpinion (fst (Load oh tx)))\<rparr>]) = Inr (oh', act', fin')"
    from getFinalizedTxs_loop_keys [OF a] Cons.prems(2) have "x \<noteq> tx" by (auto simp: keys_delete)
    moreover from a Cons.prems(2) have "map_of act' x = map_of (AList.delete tx act) x" by (rule Cons.IH)
    ultimately show ?thesis by simp
  qed
qed

lemma getFinalizedTxs_loop_total:
  assumes "0 \<le> param_m p" "1 \<le> param_l p" "param_m p + param_l p < 2 ^ 63"
  shows "distinct txs \<Longrightarrow> \<forall>tx \<in> set txs. \<exists>h. oh tx = Some h \<and> h \<noteq> [] \<and> int (length h) < 2 ^ 63 \<Longrightarrow>
         \<exists>r. getFinalizedTxs_loop p txs (oh, act, fin) = Inr r"
proof (induction txs arbitrary: oh act fin)
  case Nil
  then show ?case by simp
next
  case (Cons tx txs)
  from Cons.prems obtain h where h: "oh tx = Some h" "h \<noteq> []" "int (length h) < 2 ^ 63" by auto
  from history_isFinal_total [OF assms h(3) h(2)] obtain b
    where b: "history_isFinal (Some h) (param_m p) (param_l p) = Inr b" by blast
  have L: "fst (Load oh tx) = Some h" by (simp add: Load_def h)
  show ?case
  proof (cases b)
    case False
    have "\<exists>r. getFinalizedTxs_loop p txs (oh, act, fin) = Inr r"
      using Cons.prems by (intro Cons.IH) auto
    with False b L show ?thesis by simp
  next
    case True
    let ?t = "\<lparr>TxHash = tx, Opinion = fst (getLastOpinion (Some h))\<rparr>"
    have "\<exists>r. getFinalizedTxs_loop p txs (Delete oh tx, AList.delete tx act, fin @ [?t]) = Inr r"
      using Cons.prems by (intro Cons.IH) (auto simp: Delete_def)
    with True b L show ?thesis by simp
  qed
qed

lemma getFinalizedTxs_frame:
  assumes "getFinalizedTxs s = Inr (s', fin)"
  shows "TxHash ` set fin \<subseteq> fst ` set (activeTxs s)"
    and "\<forall>tx \<in> TxHash ` set fin. opinionHistory s' tx = None \<and> tx \<notin> fst ` set (activeTxs s')"
    and "\<forall>tx. opinionHistory s tx = None \<longrightarrow> opinionHistory s' tx = None"
    and "fst ` set (activeTxs s') \<subseteq> fst ` set (activeTxs s)"
    and "\<forall>tx \<in> fst ` set (activeTxs s'). opinionHistory s' tx = opinionHistory s tx"
    and "distinct (map fst (activeTxs s)) \<longrightarrow> distinct (map fst (activeTxs s'))"
    and "parameters s' = parameters s" "tick s' = tick s" "waitingTxs s' = waitingTxs s"
proof -
  from assms obtain oh' act' where
    loop: "getFinalizedTxs_loop (parameters s) (map fst (activeTxs s)) (opinionHistory s, activeTxs s, [])
             = Inr (oh', act', fin)"
    and s': "s' = s\<lparr>opinionHistory := oh', activeTxs := act'\<rparr>"
    by (auto simp: getFinalizedTxs_def split: sum.splits)
  from getFinalizedTxs_loop_new [OF loop]
  show "TxHash ` set fin \<subseteq> fst ` set (activeTxs s)" by auto
  from getFinalizedTxs_loop_new [OF loop]
  show "\<forall>tx \<in> TxHash ` set fin. opinionHistory s' tx = None \<and> tx \<notin> fst ` set (activeTxs s')"
    by (auto simp: s')
  show "\<forall>tx. opinionHistory s tx = None \<longrightarrow> opinionHistory s' tx = None"
    using getFinalizedTxs_loop_None [OF loop] by (simp add: s')
  show "fst ` set (activeTxs s') \<subseteq> fst ` set (activeTxs s)"
    using getFinalizedTxs_loop_keys [OF loop] by (simp add: s')
  show "\<forall>tx \<in> fst ` set (activeTxs s'). opinionHistory s' tx = opinionHistory s tx"
    using getFinalizedTxs_loop_same [OF loop] by (simp add: s')
  show "distinct (map fst (activeTxs s)) \<longrightarrow> distinct (map fst (activeTxs s'))"
    using getFinalizedTxs_loop_keys [OF loop] by (simp add: s')
  show "parameters s' = parameters s" "tick s' = tick s" "waitingTxs s' = waitingTxs s"
    by (simp_all add: s')
qed

lemma getFinalizedTxs_total:
  assumes "0 \<le> param_m (parameters s)" "1 \<le> param_l (parameters s)"
    and "param_m (parameters s) + param_l (parameters s) < 2 ^ 63"
    and "distinct (map fst (activeTxs s))"
    and "\<forall>k \<in> fst ` set (activeTxs s). \<exists>h. opinionHistory s k = Some h \<and> h \<noteq> [] \<and> int (length h) < 2 ^ 63"
  shows "\<exists>s' fin. getFinalizedTxs s = Inr (s', fin)"
proof -
  from getFinalizedTxs_loop_total [OF assms(1,2,3), of "map fst (activeTxs s)" "opinionHistory s"
      "activeTxs s" "[]"] assms(4,5)
  obtain r where "getFinalizedTxs_loop (parameters s) (map fst (activeTxs s))
             (opinionHistory s, activeTxs s, []) = Inr r" by auto
  then show ?thesis by (cases r) (auto simp: getFinalizedTxs_def)
qed

lemma getFinalizedTxs_map_of:
  assumes "getFinalizedTxs s = Inr (s', fin)" and "x \<in> fst ` set (activeTxs s')"
  shows "map_of (activeTxs s') x = map_of (activeTxs s) x"
proof -
  from assms(1) obtain oh' act' where
    loop: "getFinalizedTxs_loop (parameters s) (map fst (activeTxs s)) (opinionHistory s, activeTxs s, [])
             = Inr (oh', act', fin)"
    and s': "s' = s\<lparr>opinionHistory := oh', activeTxs := act'\<rparr>"
    by (auto simp: getFinalizedTxs_def split: sum.splits)
  from getFinalizedTxs_loop_map_of [OF loop, of x] assms(2) show ?thesis by (simp add: s')
qed


lemma getFinalizedTxs_fin:
  assumes "getFinalizedTxs s = Inr (s', fin)" and "distinct (map fst (activeTxs s))"
  shows "fin = map (\<lambda>tx. \<lparr>TxHash = tx, Opinion = fst (getLastOpinion (fst (Load (opinionHistory s) tx)))\<rparr>)
                 (filter (\<lambda>tx. history_isFinal (fst (Load (opinionHistory s) tx))
                                 (param_m (parameters s)) (param_l (parameters s)) = Inr True)
                    (map fst (activeTxs s)))"
proof -
  from assms(1) obtain oh' act' where
    loop: "getFinalizedTxs_loop (parameters s) (map fst (activeTxs s)) (opinionHistory s, activeTxs s, [])
             = Inr (oh', act', fin)"
    by (auto simp: getFinalizedTxs_def split: sum.splits)
  from getFinalizedTxs_loop_fin [OF assms(2) loop] show ?thesis by simp
qed

lemma getFinalizedTxs_keep:
  assumes "getFinalizedTxs s = Inr (s', fin)"
    and "history_isFinal (fst (Load (opinionHistory s) x)) (param_m (parameters s)) (param_l (parameters s))
           \<noteq> Inr True"
  shows "opinionHistory s' x = opinionHistory s x"
proof -
  from assms(1) obtain oh' act' where
    loop: "getFinalizedTxs_loop (parameters s) (map fst (activeTxs s)) (opinionHistory s, activeTxs s, [])
             = Inr (oh', act', fin)"
    and s': "s' = s\<lparr>opinionHistory := oh', activeTxs := act'\<rparr>"
    by (auto simp: getFinalizedTxs_def split: sum.splits)
  from getFinalizedTxs_loop_keep [OF loop assms(2)] show ?thesis by (simp add: s')
qed

text \<open>
  Claim C2, as stated, fails: \<^verbatim>\<open>m+l\<close> is an addition of Go's \<^verbatim>\<open>int\<close>, which wraps around.
  With \<open>m = 2^63 - 1\<close> and \<open>l = 1\<close> the sum is \<open>-2^63\<close>, the length test passes, and the
  check fires on a history of length 2, although \<open>|h| \<ge> m + l + 1\<close> is false.
\<close>

theorem isFinal_overflow_counterexample:
  "history_isFinal (Some [True, True]) 9223372036854775807 1 = Inr True
   \<and> \<not> (9223372036854775807 + 1 + 1 \<le> int (length [True, True]))"
  by (simp add: history_isFinal_def slice_from_def isFinal_def wrap64_def index_go_def)

text \<open>
  Claim C2, amended. For every history \<open>h\<close> (the initial opinion included; a Go slice has
  fewer than \<open>2^63\<close> entries) and parameters \<open>m \<ge> 0\<close>, \<open>l \<ge> 1\<close> whose sum does not overflow
  (\<open>m + l < 2^63\<close>), the test of \<^verbatim>\<open>getFinalizedTxs\<close> fires if and only if
  \<open>|h| \<ge> m + l + 1\<close> and the last \<open>l\<close> entries of \<open>h\<close> are pairwise identical (on the
  \<^verbatim>\<open>nil\<close> history it panics and does not fire); when it fires, the opinion returned by
  \<^verbatim>\<open>getLastOpinion\<close> is the value of every entry of that tail. In every state whose
  active set holds the tx with history \<open>h\<close>, the batch that \<^verbatim>\<open>getFinalizedTxs\<close> returns
  contains the tx if and only if the test fires, and then with that opinion.
\<close>

theorem isFinal_fires_iff:
  assumes "0 \<le> m" and "1 \<le> l" and "m + l < 2 ^ 63" and "int (length h) < 2 ^ 63"
  shows "((history_isFinal (Some h) m l = Inr True) =
            (m + l + 1 \<le> int (length h) \<and>
             (\<forall>u \<in> set (drop (length h - nat l) h). \<forall>v \<in> set (drop (length h - nat l) h). u = v)))
       \<and> history_isFinal None m l = Inl SliceBoundsOutOfRange
       \<and> (history_isFinal (Some h) m l = Inr True \<longrightarrow>
            (\<forall>v \<in> set (drop (length h - nat l) h). fst (getLastOpinion (Some h)) = v))
       \<and> (\<forall>s s' finalized tx.
            param_m (parameters s) = m \<and> param_l (parameters s) = l
            \<and> distinct (map fst (activeTxs s)) \<and> tx \<in> fst ` set (activeTxs s)
            \<and> opinionHistory s tx = Some h \<and> getFinalizedTxs s = Inr (s', finalized) \<longrightarrow>
            ((\<exists>opinion. \<lparr>TxHash = tx, Opinion = opinion\<rparr> \<in> set finalized) =
               (history_isFinal (Some h) m l = Inr True))
            \<and> (\<forall>opinion. \<lparr>TxHash = tx, Opinion = opinion\<rparr> \<in> set finalized \<longrightarrow>
                   opinion = fst (getLastOpinion (Some h))))"
proof (intro conjI impI allI)
  show "(history_isFinal (Some h) m l = Inr True) =
            (m + l + 1 \<le> int (length h) \<and>
             (\<forall>u \<in> set (drop (length h - nat l) h). \<forall>v \<in> set (drop (length h - nat l) h). u = v))"
    by (rule history_isFinal_Some [OF assms])
  show "history_isFinal None m l = Inl SliceBoundsOutOfRange"
    by (simp add: history_isFinal_def)
next
  assume fires: "history_isFinal (Some h) m l = Inr True"
  then have len: "m + l + 1 \<le> int (length h)"
    and same: "\<forall>u \<in> set (drop (length h - nat l) h). \<forall>v \<in> set (drop (length h - nat l) h). u = v"
    using history_isFinal_Some [OF assms] by auto
  from len assms have ne: "h \<noteq> []" by auto
  from len assms have "length h - nat l < length h" by linarith
  then have "drop (length h - nat l) h \<noteq> []" by simp
  then have "last h \<in> set (drop (length h - nat l) h)"
    by (metis last_drop last_in_set \<open>length h - nat l < length h\<close>)
  with same show "\<forall>v \<in> set (drop (length h - nat l) h). fst (getLastOpinion (Some h)) = v"
    by (simp add: getLastOpinion_Some [OF ne])
next
  fix s s' finalized tx
  assume a: "param_m (parameters s) = m \<and> param_l (parameters s) = l
            \<and> distinct (map fst (activeTxs s)) \<and> tx \<in> fst ` set (activeTxs s)
            \<and> opinionHistory s tx = Some h \<and> getFinalizedTxs s = Inr (s', finalized)"
  then have L: "fst (Load (opinionHistory s) tx) = Some h" by (simp add: Load_def)
  from a have fin: "finalized =
      map (\<lambda>tx. \<lparr>TxHash = tx, Opinion = fst (getLastOpinion (fst (Load (opinionHistory s) tx)))\<rparr>)
        (filter (\<lambda>tx. history_isFinal (fst (Load (opinionHistory s) tx)) m l = Inr True)
           (map fst (activeTxs s)))"
    using getFinalizedTxs_fin [of s s' finalized] by simp
  from a have act: "tx \<in> set (map fst (activeTxs s))" by simp
  show "(\<exists>opinion. \<lparr>TxHash = tx, Opinion = opinion\<rparr> \<in> set finalized) =
               (history_isFinal (Some h) m l = Inr True)"
  proof
    assume "\<exists>opinion. \<lparr>TxHash = tx, Opinion = opinion\<rparr> \<in> set finalized"
    then show "history_isFinal (Some h) m l = Inr True"
      using L by (auto simp: fin)
  next
    assume f: "history_isFinal (Some h) m l = Inr True"
    have "\<lparr>TxHash = tx, Opinion = fst (getLastOpinion (Some h))\<rparr> \<in> set finalized"
      unfolding fin set_map set_filter
      by (rule image_eqI [where x = tx]) (use act f L in simp_all)
    then show "\<exists>opinion. \<lparr>TxHash = tx, Opinion = opinion\<rparr> \<in> set finalized" ..
  qed
  show "\<And>opinion. \<lparr>TxHash = tx, Opinion = opinion\<rparr> \<in> set finalized \<Longrightarrow>
                   opinion = fst (getLastOpinion (Some h))"
    using L by (auto simp: fin)
qed

subsection \<open>Values that are computed exactly\<close>

lemma round64_of_int: "\<bar>n\<bar> < 2 ^ 53 \<Longrightarrow> round64 (of_int n) = Finite (of_int n)"
  using round64_exact [of "of_int n" n 0] by simp

lemma round64_of_nat: "n < 2 ^ 53 \<Longrightarrow> round64 (real n) = Finite (real n)"
  using round64_of_int [of "int n"] by simp

lemma round64_dyadic:
  "round64 0 = Finite 0" "round64 1 = Finite 1" "round64 2 = Finite 2" "round64 3 = Finite 3"
  "round64 (- 1) = Finite (- 1)"
  using round64_of_int [of 0] round64_of_int [of 1] round64_of_int [of 2] round64_of_int [of 3]
    round64_of_int [of "- 1"]
  by simp_all

lemma round64_fractions:
  "round64 (1 / 2) = Finite (1 / 2)" "round64 (1 / 4) = Finite (1 / 4)"
  "round64 (3 / 4) = Finite (3 / 4)" "round64 (1 / 8) = Finite (1 / 8)"
  "round64 (7 / 8) = Finite (7 / 8)" "round64 (3 / 8) = Finite (3 / 8)"
  "round64 (5 / 4) = Finite (5 / 4)"
  using round64_exact [of "1 / 2" 1 "- 1"] round64_exact [of "1 / 4" 1 "- 2"]
    round64_exact [of "3 / 4" 3 "- 2"] round64_exact [of "1 / 8" 1 "- 3"]
    round64_exact [of "7 / 8" 7 "- 3"] round64_exact [of "3 / 8" 3 "- 3"]
    round64_exact [of "5 / 4" 5 "- 2"]
  by (simp_all add: power_int_minus)

lemma f64_count_exact: "n < 2 ^ 53 \<Longrightarrow> f64_count n = Finite (real n)"
proof (induction n)
  case 0
  then show ?case by (simp add: f64_count_def)
next
  case (Suc n)
  then have "f64_count n = Finite (real n)" by simp
  moreover have "round64 (real (Suc n)) = Finite (real (Suc n))"
    using Suc.prems by (rule round64_of_nat)
  ultimately show ?case by (simp add: f64_count_def add.commute)
qed

lemma f64_of_int_exact: "n < 2 ^ 53 \<Longrightarrow> f64_of_int (int n) = Finite (real n)"
  using round64_of_nat [of n] by (simp add: f64_of_int_def)

subsection \<open>The aggregation of the votes\<close>

lemma map_of_calculateEtas_vote:
  "map_of (calculateEtas_vote vote allEtas) =
   (map_of allEtas)(TxHash vote \<mapsto>
      \<lparr>eta_value = (if Opinion vote
                    then f64_add (case map_of allEtas (TxHash vote) of None \<Rightarrow> Finite 0 | Some e \<Rightarrow> eta_value e)
                           (Finite 1)
                    else (case map_of allEtas (TxHash vote) of None \<Rightarrow> Finite 0 | Some e \<Rightarrow> eta_value e)),
       eta_count = (case map_of allEtas (TxHash vote) of None \<Rightarrow> 0 | Some e \<Rightarrow> eta_count e) + 1\<rparr>)"
  by (simp add: calculateEtas_vote_def update_conv' split: option.splits)

lemma distinct_calculateEtas_vote:
  "distinct (map fst allEtas) \<Longrightarrow> distinct (map fst (calculateEtas_vote vote allEtas))"
  by (simp add: calculateEtas_vote_def distinct_update Let_def)

lemma distinct_calculateEtas_loop:
  "distinct (map fst allEtas) \<Longrightarrow> distinct (map fst (calculateEtas_loop votes allEtas))"
  by (induction votes arbitrary: allEtas) (simp_all add: distinct_calculateEtas_vote)

lemma map_of_calculateEtas_loop:
  "map_of (calculateEtas_loop votes allEtas) tx =
   (if votes_for tx votes = 0 then map_of allEtas tx
    else Some \<lparr>eta_value = ((\<lambda>v. f64_add v (Finite 1)) ^^ positive_votes_for tx votes)
                             (case map_of allEtas tx of None \<Rightarrow> Finite 0 | Some e \<Rightarrow> eta_value e),
               eta_count = (case map_of allEtas tx of None \<Rightarrow> 0 | Some e \<Rightarrow> eta_count e)
                             + int (votes_for tx votes)\<rparr>)"
proof (induction votes arbitrary: allEtas)
  case Nil
  then show ?case by (simp add: votes_for_def)
next
  case (Cons vote votes)
  have "filter (\<lambda>v. TxHash v = tx) votes = [] \<Longrightarrow>
        filter (\<lambda>v. TxHash v = tx \<and> Opinion v) votes = []"
    by (auto simp: filter_empty_conv)
  moreover have "((\<lambda>v. f64_add v (Finite 1)) ^^ n) (f64_add x (Finite 1))
                 = f64_add (((\<lambda>v. f64_add v (Finite 1)) ^^ n) x) (Finite 1)" for n x
    using funpow_swap1 [of "\<lambda>v. f64_add v (Finite 1)" n x] by simp
  ultimately show ?case
    by (simp add: Cons.IH map_of_calculateEtas_vote votes_for_def positive_votes_for_def
          del: f64_add.simps split: option.splits)
qed

lemma map_of_map_values:
  "map_of (map (\<lambda>(k, v). (k, f v)) al) k = map_option f (map_of al k)"
  by (induction al) auto

lemma map_of_calculateEtas:
  "map_of (calculateEtas votes) tx =
   (if votes_for tx votes = 0 then None
    else Some \<lparr>eta_value = f64_div (f64_count (positive_votes_for tx votes))
                             (f64_of_int (int (votes_for tx votes))),
               eta_count = int (votes_for tx votes)\<rparr>)"
  by (simp add: calculateEtas_def map_of_map_values map_of_calculateEtas_loop f64_count_def)

lemma keys_calculateEtas: "map fst (calculateEtas votes) = map fst (calculateEtas_loop votes [])"
  by (simp add: calculateEtas_def case_prod_unfold comp_def)

lemma votes_for_mset: "mset votes = mset votes' \<Longrightarrow> votes_for tx votes = votes_for tx votes'"
  unfolding votes_for_def by (metis mset_filter size_mset)

lemma positive_votes_for_mset:
  "mset votes = mset votes' \<Longrightarrow> positive_votes_for tx votes = positive_votes_for tx votes'"
  unfolding positive_votes_for_def by (metis mset_filter size_mset)

lemma votes_for_0_iff: "(votes_for tx votes = 0) = (tx \<notin> TxHash ` set votes)"
  by (auto simp: votes_for_def filter_empty_conv)

lemma positive_votes_le: "positive_votes_for tx votes \<le> votes_for tx votes"
  unfolding positive_votes_for_def votes_for_def
proof (induction votes)
  case Nil
  then show ?case by simp
next
  case (Cons v votes)
  then show ?case by auto
qed

lemma f64_ratio:
  assumes "0 < c" "c < 2 ^ 53" "p \<le> c"
  shows "f64_div (f64_count p) (f64_of_int (int c)) = round64 (real p / real c)"
    and "\<exists>r. round64 (real p / real c) = Finite r \<and> \<bar>r - real p / real c\<bar> \<le> 1 / 2 ^ 53"
proof -
  from assms have p: "p < 2 ^ 53" by simp
  show "f64_div (f64_count p) (f64_of_int (int c)) = round64 (real p / real c)"
    using assms(1) by (simp add: f64_count_exact [OF p] f64_of_int_exact [OF assms(2)])
  have "real p / real c \<le> 1" using assms by simp
  moreover have "0 \<le> real p / real c" by simp
  ultimately have "\<bar>real p / real c\<bar> < 2" by simp
  then show "\<exists>r. round64 (real p / real c) = Finite r \<and> \<bar>r - real p / real c\<bar> \<le> 1 / 2 ^ 53"
    by (rule round64_near)
qed

lemma round64_third: "round64 (1 / 3) = Finite (6004799503160661 / 2 ^ 54)"
  by (subst round64_eval [of "- 2"]) (simp_all add: round_even_def Let_def power_int_minus)

text \<open>
  Claim C8, as stated, fails: the value is a float64 quotient, not the ratio. For one
  positive vote among three the value is \<open>6004799503160661 / 2^54\<close>, which is not \<open>1/3\<close>.
\<close>

theorem calculateEtas_rounded_counterexample:
  "map_of (calculateEtas
       [\<lparr>TxHash = ''t1'', Opinion = True\<rparr>, \<lparr>TxHash = ''t1'', Opinion = False\<rparr>,
        \<lparr>TxHash = ''t1'', Opinion = False\<rparr>]) ''t1''
     = Some \<lparr>eta_value = Finite (6004799503160661 / 2 ^ 54), eta_count = 3\<rparr>
   \<and> positive_votes_for ''t1''
       [\<lparr>TxHash = ''t1'', Opinion = True\<rparr>, \<lparr>TxHash = ''t1'', Opinion = False\<rparr>,
        \<lparr>TxHash = ''t1'', Opinion = False\<rparr>] = 1
   \<and> votes_for ''t1''
       [\<lparr>TxHash = ''t1'', Opinion = True\<rparr>, \<lparr>TxHash = ''t1'', Opinion = False\<rparr>,
        \<lparr>TxHash = ''t1'', Opinion = False\<rparr>] = 3
   \<and> (6004799503160661 / 2 ^ 54 :: real) \<noteq> 1 / 3"
  by (simp add: calculateEtas_def calculateEtas_vote_def round64_dyadic round64_third f64_of_int_def
      votes_for_def positive_votes_for_def)

text \<open>
  Claim C8, amended. For every list of collected votes, \<^verbatim>\<open>calculateEtas\<close> gives each tx that
  received a vote the count (number of its votes) and the value that the float64 division
  of the counted positive votes by the count returns; for fewer than \<open>2^53\<close> votes this is
  the float64 nearest to the ratio (number of positive votes) / count, at most \<open>2^-53\<close> away
  from it. A tx that received no vote is absent from the result; the keys of the result
  are distinct, and the result, read as a map, is the same for every order of the votes.
\<close>

theorem calculateEtas_ratio:
  "map_of (calculateEtas votes) tx =
     (if tx \<in> TxHash ` set votes
      then Some \<lparr>eta_value = f64_div (f64_count (positive_votes_for tx votes))
                               (f64_of_int (int (votes_for tx votes))),
                 eta_count = int (votes_for tx votes)\<rparr>
      else None)
   \<and> (tx \<in> TxHash ` set votes \<and> votes_for tx votes < 2 ^ 53 \<longrightarrow>
        f64_div (f64_count (positive_votes_for tx votes)) (f64_of_int (int (votes_for tx votes)))
          = round64 (real (positive_votes_for tx votes) / real (votes_for tx votes))
        \<and> (\<exists>r. round64 (real (positive_votes_for tx votes) / real (votes_for tx votes)) = Finite r
               \<and> \<bar>r - real (positive_votes_for tx votes) / real (votes_for tx votes)\<bar> \<le> 1 / 2 ^ 53))
   \<and> distinct (map fst (calculateEtas votes))
   \<and> (mset votes = mset votes' \<longrightarrow> map_of (calculateEtas votes') = map_of (calculateEtas votes))"
proof (intro conjI impI)
  show "map_of (calculateEtas votes) tx =
     (if tx \<in> TxHash ` set votes
      then Some \<lparr>eta_value = f64_div (f64_count (positive_votes_for tx votes))
                               (f64_of_int (int (votes_for tx votes))),
                 eta_count = int (votes_for tx votes)\<rparr>
      else None)"
    by (simp add: map_of_calculateEtas votes_for_0_iff)
  show "distinct (map fst (calculateEtas votes))"
    by (simp add: keys_calculateEtas distinct_calculateEtas_loop)
next
  assume a: "tx \<in> TxHash ` set votes \<and> votes_for tx votes < 2 ^ 53"
  then have c: "0 < votes_for tx votes" using votes_for_0_iff [of tx votes] by auto
  from a have b: "votes_for tx votes < 2 ^ 53" by simp
  show "f64_div (f64_count (positive_votes_for tx votes)) (f64_of_int (int (votes_for tx votes)))
          = round64 (real (positive_votes_for tx votes) / real (votes_for tx votes))"
    by (rule f64_ratio(1) [OF c b positive_votes_le])
  show "\<exists>r. round64 (real (positive_votes_for tx votes) / real (votes_for tx votes)) = Finite r
               \<and> \<bar>r - real (positive_votes_for tx votes) / real (votes_for tx votes)\<bar> \<le> 1 / 2 ^ 53"
    by (rule f64_ratio(2) [OF c b positive_votes_le])
next
  assume "mset votes = mset votes'"
  then show "map_of (calculateEtas votes') = map_of (calculateEtas votes)"
    by (intro ext) (simp add: map_of_calculateEtas votes_for_mset [of votes votes'] positive_votes_for_mset [of votes votes'])
qed

theorem calculateEtas_ratio_witness:
  "map_of (calculateEtas
       [\<lparr>TxHash = ''t1'', Opinion = True\<rparr>, \<lparr>TxHash = ''t2'', Opinion = False\<rparr>,
        \<lparr>TxHash = ''t1'', Opinion = False\<rparr>]) ''t1''
     = Some \<lparr>eta_value = Finite (1 / 2), eta_count = 2\<rparr>
   \<and> ''t1'' \<in> TxHash ` set [\<lparr>TxHash = ''t1'', Opinion = True\<rparr>, \<lparr>TxHash = ''t2'', Opinion = False\<rparr>,
        \<lparr>TxHash = ''t1'', Opinion = False\<rparr>]
   \<and> votes_for ''t1'' [\<lparr>TxHash = ''t1'', Opinion = True\<rparr>, \<lparr>TxHash = ''t2'', Opinion = False\<rparr>,
        \<lparr>TxHash = ''t1'', Opinion = False\<rparr>] < 2 ^ 53
   \<and> f64_div (f64_count 1) (f64_of_int 2) = round64 (1 / 2)
   \<and> map_of (calculateEtas
       [\<lparr>TxHash = ''t1'', Opinion = False\<rparr>, \<lparr>TxHash = ''t1'', Opinion = True\<rparr>,
        \<lparr>TxHash = ''t2'', Opinion = False\<rparr>])
     = map_of (calculateEtas
       [\<lparr>TxHash = ''t1'', Opinion = True\<rparr>, \<lparr>TxHash = ''t2'', Opinion = False\<rparr>,
        \<lparr>TxHash = ''t1'', Opinion = False\<rparr>])"
  using calculateEtas_ratio [of
       "[\<lparr>TxHash = ''t1'', Opinion = True\<rparr>, \<lparr>TxHash = ''t2'', Opinion = False\<rparr>,
        \<lparr>TxHash = ''t1'', Opinion = False\<rparr>]" "''t1''"
       "[\<lparr>TxHash = ''t1'', Opinion = False\<rparr>, \<lparr>TxHash = ''t1'', Opinion = True\<rparr>,
        \<lparr>TxHash = ''t2'', Opinion = False\<rparr>]"]
  by (simp add: votes_for_def positive_votes_for_def f64_count_def f64_of_int_def round64_dyadic
      round64_fractions)

subsection \<open>The update of the opinions\<close>

lemma f64_ne_Finite: "f64_ne u (Finite c) = (u \<noteq> Finite c)"
  by (auto simp: f64_ne_def)

lemma updateOpinion_loop_lookup:
  "distinct (map fst al) \<Longrightarrow>
   updateOpinion_loop t p al oh tx =
     (case map_of al tx of
        None \<Rightarrow> oh tx
      | Some eta \<Rightarrow>
          (case oh tx of
             None \<Rightarrow> None
           | Some h \<Rightarrow>
               if eta_value eta \<noteq> Finite (- 1)
               then Some (h @ [f64_gt (eta_value eta) (threshold t p (length h))])
               else Some h))"
proof (induction al arbitrary: oh tx)
  case Nil
  then show ?case by simp
next
  case (Cons e rest)
  obtain tx' eta' where e: "e = (tx', eta')" by (cases e)
  from Cons.prems have d: "distinct (map fst rest)" and n: "tx' \<notin> fst ` set rest"
    by (auto simp: e)
  from n have none: "map_of rest tx' = None" by (simp add: map_of_eq_None_iff)
  show ?case
  proof (cases "tx = tx'")
    case True
    then show ?thesis
      by (simp add: e Cons.IH [OF d] none Store_def Load_def len_go_def f64_ne_Finite
            split: option.splits)
  next
    case False
    then show ?thesis
      by (simp add: e Cons.IH [OF d] Store_def Load_def len_go_def f64_ne_Finite
            split: option.splits)
  qed
qed

subsection \<open>The rounding of the threshold\<close>

lemma runif_near_eps:
  assumes rn: "\<And>z. \<bar>z\<bar> < 2 \<Longrightarrow> \<exists>r. round64 z = Finite r \<and> \<bar>r - z\<bar> \<le> e"
    and e: "0 \<le> e" "e \<le> 1 / 8"
    and x: "0 \<le> x" "x \<le> 1" and lo: "0 \<le> lo" "lo \<le> 1" and hi: "0 \<le> hi" "hi \<le> 1 + e"
  shows "\<exists>r. runif (Finite x) (Finite lo) (Finite hi) = Finite r
            \<and> \<bar>r - (lo + x * (hi - lo))\<bar> \<le> 3 * e"
proof -
  have "\<bar>hi - lo\<bar> < 2" using lo hi e by linarith
  from rn [OF this] obtain d
    where d: "round64 (hi - lo) = Finite d" "\<bar>d - (hi - lo)\<bar> \<le> e" by blast
  have dabs: "\<bar>d\<bar> \<le> 1 + 2 * e" using d(2) lo hi by linarith
  have "\<bar>x * d\<bar> \<le> 1 * \<bar>d\<bar>" unfolding abs_mult using x by (intro mult_right_mono) auto
  with dabs have xd: "\<bar>x * d\<bar> \<le> 1 + 2 * e" by simp
  then have "\<bar>x * d\<bar> < 2" using e by linarith
  from rn [OF this] obtain p
    where p: "round64 (x * d) = Finite p" "\<bar>p - x * d\<bar> \<le> e" by blast
  have "\<bar>x * (d - (hi - lo))\<bar> \<le> 1 * \<bar>d - (hi - lo)\<bar>"
    unfolding abs_mult using x by (intro mult_right_mono) auto
  with d(2) have e1: "\<bar>x * d - x * (hi - lo)\<bar> \<le> e" by (simp add: right_diff_distrib)
  have conv: "x * (hi - lo) + lo = (1 - x) * lo + x * hi" by (simp add: algebra_simps)
  have "0 \<le> (1 - x) * lo" "0 \<le> x * hi" using x lo hi by simp_all
  with conv have c1: "0 \<le> x * (hi - lo) + lo" by linarith
  have "(1 - x) * lo \<le> (1 - x) * 1" using x lo by (intro mult_left_mono) auto
  moreover have "x * hi \<le> x * (1 + e)" using x hi by (intro mult_left_mono) auto
  moreover have "x * e \<le> 1 * e" using x e by (intro mult_right_mono) auto
  ultimately have c2: "x * (hi - lo) + lo \<le> 1 + e" using conv by (simp add: algebra_simps)
  have "\<bar>lo + p\<bar> < 2" using p(2) e1 c1 c2 e by linarith
  from rn [OF this] obtain r
    where r: "round64 (lo + p) = Finite r" "\<bar>r - (lo + p)\<bar> \<le> e" by blast
  have "runif (Finite x) (Finite lo) (Finite hi) = Finite r"
    by (simp add: runif_def f64_sub_def d p r)
  moreover have "\<bar>r - (lo + x * (hi - lo))\<bar> \<le> 3 * e"
    using r(2) p(2) e1 by linarith
  ultimately show ?thesis by blast
qed

lemma runif_near:
  assumes "0 \<le> x" "x \<le> 1" "0 \<le> lo" "lo \<le> 1" "0 \<le> hi" "hi \<le> 1 + 1 / 2 ^ 53"
  shows "\<exists>r. runif (Finite x) (Finite lo) (Finite hi) = Finite r
            \<and> \<bar>r - (lo + x * (hi - lo))\<bar> \<le> 3 * (1 / 2 ^ 53)"
  by (rule runif_near_eps [OF round64_near _ _ assms]) simp_all

lemma threshold_near_eps:
  assumes rn: "\<And>z. \<bar>z\<bar> < 2 \<Longrightarrow> \<exists>r. round64 z = Finite r \<and> \<bar>r - z\<bar> \<le> e"
    and e: "0 \<le> e" "e \<le> 1 / 8"
    and t: "tick_x t = Finite x" "0 \<le> x" "x \<le> 1"
    and a: "param_a p = Finite a" "0 \<le> a" "a \<le> 1"
    and b: "param_b p = Finite b" "0 \<le> b" "b \<le> 1"
    and beta: "param_beta p = Finite \<beta>" "0 \<le> \<beta>" "\<beta> < 1 / 2"
  shows "\<exists>r. threshold t p n = Finite r
            \<and> \<bar>r - (if n = 1 then a + x * (b - a) else \<beta> + x * (1 - 2 * \<beta>))\<bar> \<le> 4 * e"
proof (cases "n = 1")
  case True
  have b': "b \<le> 1 + e" using b e by linarith
  from runif_near_eps [OF rn e t(2,3) a(2,3) b(2) b'] obtain r
    where r: "runif (Finite x) (Finite a) (Finite b) = Finite r" "\<bar>r - (a + x * (b - a))\<bar> \<le> 3 * e"
    by blast
  from r(2) e have "\<bar>r - (a + x * (b - a))\<bar> \<le> 4 * e" by linarith
  with r(1) True show ?thesis by (simp add: threshold_def t a b)
next
  case False
  have "\<bar>1 - \<beta>\<bar> < 2" using beta by linarith
  from rn [OF this] obtain h
    where h: "round64 (1 - \<beta>) = Finite h" "\<bar>h - (1 - \<beta>)\<bar> \<le> e" by blast
  have h0: "0 \<le> h" using h(2) beta e by linarith
  have h1: "h \<le> 1 + e" using h(2) beta e by linarith
  have b1: "\<beta> \<le> 1" using beta by simp
  from runif_near_eps [OF rn e t(2,3) beta(2) b1 h0 h1] obtain r
    where r: "runif (Finite x) (Finite \<beta>) (Finite h) = Finite r" "\<bar>r - (\<beta> + x * (h - \<beta>))\<bar> \<le> 3 * e"
    by blast
  have "\<bar>x * (h - (1 - \<beta>))\<bar> \<le> 1 * \<bar>h - (1 - \<beta>)\<bar>"
    unfolding abs_mult using t by (intro mult_right_mono) auto
  moreover have "x * (h - (1 - \<beta>)) = x * (h - \<beta>) - x * (1 - 2 * \<beta>)" by (simp add: algebra_simps)
  ultimately have "\<bar>x * (h - \<beta>) - x * (1 - 2 * \<beta>)\<bar> \<le> e" using h(2) by simp
  with r(2) have "\<bar>r - (\<beta> + x * (1 - 2 * \<beta>))\<bar> \<le> 4 * e" by linarith
  moreover have "f64_sub (Finite 1) (Finite \<beta>) = Finite h" by (simp add: f64_sub_def h)
  then have "threshold t p n = Finite r"
    using False by (simp add: threshold_def t beta r)
  ultimately show ?thesis using False by simp
qed

lemma threshold_near:
  assumes "tick_x t = Finite x" "0 \<le> x" "x \<le> 1"
    and "param_a p = Finite a" "0 \<le> a" "a \<le> 1"
    and "param_b p = Finite b" "0 \<le> b" "b \<le> 1"
    and "param_beta p = Finite \<beta>" "0 \<le> \<beta>" "\<beta> < 1 / 2"
  shows "\<exists>r. threshold t p n = Finite r
            \<and> \<bar>r - (if n = 1 then a + x * (b - a) else \<beta> + x * (1 - 2 * \<beta>))\<bar> \<le> 1 / 2 ^ 51"
proof -
  have "\<exists>r. threshold t p n = Finite r
            \<and> \<bar>r - (if n = 1 then a + x * (b - a) else \<beta> + x * (1 - 2 * \<beta>))\<bar> \<le> 4 * (1 / 2 ^ 53)"
    by (rule threshold_near_eps [OF round64_near _ _ assms]) simp_all
  then show ?thesis by simp
qed


lemma literals:
  "round64 (1 / 20) = Finite lit_0_05" "round64 (3 / 10) = Finite lit_0_3"
  "round64 (9 / 10) = Finite lit_0_9"
proof -
  show "round64 (1 / 20) = Finite lit_0_05"
    by (subst round64_eval [of "- 5"]) (simp_all add: lit_0_05_def round_even_def Let_def power_int_minus)
  show "round64 (3 / 10) = Finite lit_0_3"
    by (subst round64_eval [of "- 2"]) (simp_all add: lit_0_3_def round_even_def Let_def power_int_minus)
  show "round64 (9 / 10) = Finite lit_0_9"
    by (subst round64_eval [of "- 1"]) (simp_all add: lit_0_9_def round_even_def Let_def power_int_minus)
qed

lemma rounded_0_05:
  "f64_sub (Finite 1) (Finite lit_0_05) = Finite (4278419646001971 / 2 ^ 52)"
  "f64_sub (Finite (4278419646001971 / 2 ^ 52)) (Finite lit_0_05) = Finite (2026619832316723 / 2 ^ 51)"
  "f64_mul (Finite (1 / 2)) (Finite (2026619832316723 / 2 ^ 51)) = Finite (2026619832316723 / 2 ^ 52)"
  "f64_add (Finite lit_0_05) (Finite (2026619832316723 / 2 ^ 52)) = Finite (9007199254740991 / 2 ^ 54)"
proof -
  show "f64_sub (Finite 1) (Finite lit_0_05) = Finite (4278419646001971 / 2 ^ 52)"
    unfolding f64_sub_def f64_neg.simps f64_add.simps
    by (subst round64_eval [of "- 1"]) (simp_all add: lit_0_05_def round_even_def Let_def power_int_minus)
  show "f64_sub (Finite (4278419646001971 / 2 ^ 52)) (Finite lit_0_05) = Finite (2026619832316723 / 2 ^ 51)"
    unfolding f64_sub_def f64_neg.simps f64_add.simps
    by (subst round64_eval [of "- 1"]) (simp_all add: lit_0_05_def round_even_def Let_def power_int_minus)
  show "f64_mul (Finite (1 / 2)) (Finite (2026619832316723 / 2 ^ 51)) = Finite (2026619832316723 / 2 ^ 52)"
    unfolding f64_mul.simps
    by (subst round64_eval [of "- 2"]) (simp_all add: round_even_def Let_def power_int_minus)
  show "f64_add (Finite lit_0_05) (Finite (2026619832316723 / 2 ^ 52)) = Finite (9007199254740991 / 2 ^ 54)"
    unfolding f64_add.simps
    by (subst round64_eval [of "- 2"]) (simp_all add: lit_0_05_def round_even_def Let_def power_int_minus)
qed

lemma threshold_rounded:
  "threshold (tick example_rounded) (parameters example_rounded) 2 = Finite (9007199254740991 / 2 ^ 54)"
proof -
  have "threshold (tick example_rounded) (parameters example_rounded) 2
        = runif (Finite (1 / 2)) (Finite lit_0_05) (f64_sub (Finite 1) (Finite lit_0_05))"
    by (simp add: threshold_def example_rounded_def newTick_def)
  also have "\<dots> = Finite (9007199254740991 / 2 ^ 54)"
    by (simp only: runif_def rounded_0_05)
  finally show ?thesis .
qed

text \<open>
  Claim C3, as stated, fails: the threshold is computed in float64, as
  \<^verbatim>\<open>beta + x*((1-beta)-beta)\<close> with a rounding after each operation. For \<open>\<beta>\<close> = \<^verbatim>\<open>0.05\<close>,
  \<open>x = 1/2\<close> and a ratio of \<open>1/2\<close> on a history of length 2, the threshold of the code is
  \<open>9007199254740991 / 2^54 < 1/2\<close> and Like is appended, while \<open>\<beta> + x (1 - 2 \<beta>) = 1/2\<close>
  and the comparison of the claim gives Dislike.
\<close>

theorem updateOpinion_rounded_counterexample:
  "map_of (activeTxs example_rounded) ''t1'' = Some \<lparr>eta_value = Finite (1 / 2), eta_count = 2\<rparr>
   \<and> opinionHistory example_rounded ''t1'' = Some [True, True]
   \<and> param_beta (parameters example_rounded) = Finite lit_0_05
   \<and> round64 (1 / 20) = Finite lit_0_05
   \<and> tick_x (tick example_rounded) = Finite (1 / 2)
   \<and> opinionHistory (updateOpinion example_rounded) ''t1'' = Some [True, True, True]
   \<and> \<not> (1 / 2 > lit_0_05 + 1 / 2 * (1 - 2 * lit_0_05))"
proof -
  have d: "distinct (map fst (activeTxs example_rounded))"
    and m: "map_of (activeTxs example_rounded) ''t1'' = Some \<lparr>eta_value = Finite (1 / 2), eta_count = 2\<rparr>"
    and h: "opinionHistory example_rounded ''t1'' = Some [True, True]"
    by (simp_all add: example_rounded_def)
  have "opinionHistory (updateOpinion example_rounded) ''t1''
        = Some [True, True, f64_gt (Finite (1 / 2))
             (threshold (tick example_rounded) (parameters example_rounded) 2)]"
    by (simp add: updateOpinion_def updateOpinion_loop_lookup [OF d] m h numeral_2_eq_2)
  then have "opinionHistory (updateOpinion example_rounded) ''t1'' = Some [True, True, True]"
    by (simp add: threshold_rounded)
  moreover have "\<not> (1 / 2 > lit_0_05 + 1 / 2 * (1 - 2 * lit_0_05))"
    by (simp add: lit_0_05_def)
  ultimately show ?thesis by (simp add: example_rounded_def newTick_def literals)
qed

text \<open>
  Claim C3, amended. In the update phase of a round with common random \<open>x\<close>, for a tx of the
  active set with stored result \<open>eta\<close> and history \<open>h\<close>: if the value of \<open>eta\<close> is not \<open>-1\<close>,
  exactly one opinion is appended to the history, and it is \<open>eta.value > \<tau>\<close> (strict), where
  \<open>\<tau>\<close> is the float64 result of \<^verbatim>\<open>a + x*(b-a)\<close> when the history has length 1 and of
  \<^verbatim>\<open>beta + x*((1-beta)-beta)\<close> otherwise, each operation rounded; if the value is \<open>-1\<close>, the
  history is unchanged. The active set is not changed by the update. For \<open>x\<close>, \<open>a\<close>, \<open>b\<close> in
  \<open>[0,1]\<close> and \<open>\<beta>\<close> in \<open>[0,1/2)\<close> the threshold \<open>\<tau>\<close> is finite and at most \<open>2^-51\<close> away from
  \<open>a + x (b - a)\<close>, respectively \<open>\<beta> + x (1 - 2 \<beta>)\<close>.
\<close>

theorem updateOpinion_appends:
  assumes "distinct (map fst (activeTxs s))"
    and "map_of (activeTxs s) tx = Some eta"
    and "opinionHistory s tx = Some h"
  shows "(eta_value eta \<noteq> Finite (- 1) \<longrightarrow>
            opinionHistory (updateOpinion s) tx =
              Some (h @ [f64_gt (eta_value eta)
                 (if length h = 1
                  then f64_add (param_a (parameters s))
                         (f64_mul (tick_x (tick s))
                            (f64_sub (param_b (parameters s)) (param_a (parameters s))))
                  else f64_add (param_beta (parameters s))
                         (f64_mul (tick_x (tick s))
                            (f64_sub (f64_sub (Finite 1) (param_beta (parameters s)))
                               (param_beta (parameters s)))))]))
       \<and> (eta_value eta = Finite (- 1) \<longrightarrow> opinionHistory (updateOpinion s) tx = Some h)
       \<and> activeTxs (updateOpinion s) = activeTxs s
       \<and> (tick_x (tick s) = Finite x \<and> 0 \<le> x \<and> x \<le> 1
          \<and> param_a (parameters s) = Finite a \<and> 0 \<le> a \<and> a \<le> 1
          \<and> param_b (parameters s) = Finite b \<and> 0 \<le> b \<and> b \<le> 1
          \<and> param_beta (parameters s) = Finite \<beta> \<and> 0 \<le> \<beta> \<and> \<beta> < 1 / 2 \<longrightarrow>
            (\<exists>\<tau>. (if length h = 1
                  then f64_add (param_a (parameters s))
                         (f64_mul (tick_x (tick s))
                            (f64_sub (param_b (parameters s)) (param_a (parameters s))))
                  else f64_add (param_beta (parameters s))
                         (f64_mul (tick_x (tick s))
                            (f64_sub (f64_sub (Finite 1) (param_beta (parameters s)))
                               (param_beta (parameters s))))) = Finite \<tau>
                \<and> \<bar>\<tau> - (if length h = 1 then a + x * (b - a) else \<beta> + x * (1 - 2 * \<beta>))\<bar>
                     \<le> 1 / 2 ^ 51))"
proof -
  have th: "threshold (tick s) (parameters s) (length h) =
                 (if length h = 1
                  then f64_add (param_a (parameters s))
                         (f64_mul (tick_x (tick s))
                            (f64_sub (param_b (parameters s)) (param_a (parameters s))))
                  else f64_add (param_beta (parameters s))
                         (f64_mul (tick_x (tick s))
                            (f64_sub (f64_sub (Finite 1) (param_beta (parameters s)))
                               (param_beta (parameters s)))))"
    by (simp add: threshold_def runif_def)
  have 1: "eta_value eta \<noteq> Finite (- 1) \<longrightarrow>
            opinionHistory (updateOpinion s) tx =
              Some (h @ [f64_gt (eta_value eta) (threshold (tick s) (parameters s) (length h))])"
    using assms by (simp add: updateOpinion_def updateOpinion_loop_lookup)
  have 2: "eta_value eta = Finite (- 1) \<longrightarrow> opinionHistory (updateOpinion s) tx = Some h"
    using assms by (simp add: updateOpinion_def updateOpinion_loop_lookup)
  have 3: "activeTxs (updateOpinion s) = activeTxs s" by (simp add: updateOpinion_def)
  have 4: "tick_x (tick s) = Finite x \<and> 0 \<le> x \<and> x \<le> 1
          \<and> param_a (parameters s) = Finite a \<and> 0 \<le> a \<and> a \<le> 1
          \<and> param_b (parameters s) = Finite b \<and> 0 \<le> b \<and> b \<le> 1
          \<and> param_beta (parameters s) = Finite \<beta> \<and> 0 \<le> \<beta> \<and> \<beta> < 1 / 2 \<longrightarrow>
            (\<exists>\<tau>. threshold (tick s) (parameters s) (length h) = Finite \<tau>
                \<and> \<bar>\<tau> - (if length h = 1 then a + x * (b - a) else \<beta> + x * (1 - 2 * \<beta>))\<bar>
                     \<le> 1 / 2 ^ 51)"
    using threshold_near [of "tick s" x "parameters s" a b \<beta> "length h"] by blast
  from 1 2 3 4 show ?thesis unfolding th by (intro conjI)
qed

text \<open>
  The witness takes \<open>t1\<close> of the example state, whose ratio \<open>1/2\<close> equals the threshold
  \<open>1/4 + 1/2 (3/4 - 1/4)\<close>, computed without rounding error: the tie gives Dislike; and
  \<open>t2\<close>, whose value is \<open>-1\<close>.
\<close>

theorem updateOpinion_appends_witness:
  "opinionHistory (updateOpinion example_state) ''t1'' = Some [True, False]
   \<and> opinionHistory (updateOpinion example_state) ''t2'' = Some [False]
   \<and> f64_add (Finite (1 / 4)) (f64_mul (Finite (1 / 2)) (f64_sub (Finite (3 / 4)) (Finite (1 / 4))))
       = Finite (1 / 2)"
  using updateOpinion_appends [where s = example_state and tx = "''t1''"
      and eta = "\<lparr>eta_value = Finite (1 / 2), eta_count = 2\<rparr>" and h = "[True]"
      and x = "1 / 2" and a = "1 / 4" and b = "3 / 4" and \<beta> = "1 / 8"]
    updateOpinion_appends [where s = example_state and tx = "''t2''"
      and eta = "\<lparr>eta_value = Finite (- 1), eta_count = 0\<rparr>" and h = "[False]"
      and x = "1 / 2" and a = "1 / 4" and b = "3 / 4" and \<beta> = "1 / 8"]
  by (simp add: example_state_def example_params_def newTick_def f64_sub_def round64_fractions)

subsection \<open>The bounds of the threshold\<close>





subsection \<open>Interim opinions\<close>

lemma GetInterimOpinion_loop_eq:
  "length pre = i \<Longrightarrow>
   GetInterimOpinion_loop oh i txs (pre @ replicate (length txs) False) =
   pre @ map (\<lambda>tx. case oh tx of None \<Rightarrow> False | Some h \<Rightarrow> fst (getLastOpinion (Some h))) txs"
proof (induction txs arbitrary: i pre)
  case Nil
  then show ?case by simp
next
  case (Cons tx txs)
  have step: "\<And>v. GetInterimOpinion_loop oh (Suc i) txs ((pre @ [v]) @ replicate (length txs) False) =
        (pre @ [v]) @ map (\<lambda>tx. case oh tx of None \<Rightarrow> False | Some h \<Rightarrow> fst (getLastOpinion (Some h))) txs"
    using Cons.prems by (intro Cons.IH) simp
  show ?case
  proof (cases "oh tx")
    case None
    then show ?thesis using step [of False] by (simp add: Load_def)
  next
    case (Some h)
    have "(pre @ False # replicate (length txs) False)[i := fst (getLastOpinion (Some h))]
          = pre @ fst (getLastOpinion (Some h)) # replicate (length txs) False"
      using Cons.prems by (simp add: list_update_append)
    then show ?thesis using step [of "fst (getLastOpinion (Some h))"] Some by (simp add: Load_def)
  qed
qed

lemma GetInterimOpinion_eq:
  "GetInterimOpinion fpc txs =
   map (\<lambda>tx. case opinionHistory (state fpc) tx of None \<Rightarrow> False
              | Some h \<Rightarrow> fst (getLastOpinion (Some h))) txs"
  using GetInterimOpinion_loop_eq [of "[]" 0 "opinionHistory (state fpc)" txs]
  by (simp add: GetInterimOpinion_def)

text \<open>
  Claim C7, as stated, fails: for a tx without a history the result is not absent. The
  result of \<^verbatim>\<open>GetInterimOpinion\<close> is a slice of booleans with one entry per requested tx,
  and the entry of a tx without a history is \<^verbatim>\<open>false\<close>, the value of Dislike: the answer
  for the unknown tx \<open>t9\<close> is the answer for \<open>t2\<close>, whose last opinion is Dislike.
\<close>

theorem GetInterimOpinion_absent_counterexample:
  "opinionHistory (state example_fpc) ''t9'' = None
   \<and> GetInterimOpinion example_fpc [''t9''] = [False]
   \<and> opinionHistory (state example_fpc) ''t2'' = Some [False]
   \<and> GetInterimOpinion example_fpc [''t2''] = GetInterimOpinion example_fpc [''t9'']"
  by (simp add: GetInterimOpinion_eq example_fpc_def example_state_def getLastOpinion_def)

text \<open>
  Claim C7, amended. The result holds one entry per requested tx: the last entry of the
  history if the tx has a non-empty history in the store, and \<^verbatim>\<open>false\<close> (Dislike) if the
  tx has no history.
\<close>

theorem GetInterimOpinion_entries:
  "length (GetInterimOpinion fpc txs) = length txs
   \<and> (\<forall>i < length txs.
         (\<forall>h. opinionHistory (state fpc) (txs ! i) = Some h \<and> h \<noteq> [] \<longrightarrow>
              GetInterimOpinion fpc txs ! i = last h)
       \<and> (opinionHistory (state fpc) (txs ! i) = None \<longrightarrow> GetInterimOpinion fpc txs ! i = False))"
  by (auto simp: GetInterimOpinion_eq getLastOpinion_Some)

theorem GetInterimOpinion_entries_witness:
  "GetInterimOpinion example_fpc [''t1'', ''t9''] = [True, False]"
proof -
  note T = GetInterimOpinion_entries [of example_fpc "[''t1'', ''t9'']"]
  have h1: "opinionHistory (state example_fpc) ''t1'' = Some [True]"
    and h9: "opinionHistory (state example_fpc) ''t9'' = None"
    by (simp_all add: example_fpc_def example_state_def)
  have "GetInterimOpinion example_fpc [''t1'', ''t9''] ! 0 = True"
    using T [THEN conjunct2, THEN spec, of 0] h1 by simp
  moreover have "GetInterimOpinion example_fpc [''t1'', ''t9''] ! 1 = False"
    using T [THEN conjunct2, THEN spec, of 1] h9 by simp
  moreover have "length (GetInterimOpinion example_fpc [''t1'', ''t9'']) = 2"
    using T by simp
  ultimately show ?thesis
    by (auto simp: length_Suc_conv numeral_2_eq_2)
qed

subsection \<open>The sampler\<close>

lemma attribute_votes_eq:
  "attribute_votes txs votes i result =
     (if votes = [] \<or> i + length votes \<le> length txs
      then Inr (result @ attributed (drop i txs) votes)
      else Inl IndexOutOfRange)"
proof (induction votes arbitrary: i result)
  case Nil
  then show ?case by (simp add: attributed_def)
next
  case (Cons vote votes)
  show ?case
  proof (cases "i < length txs")
    case True
    then have d: "drop i txs = txs ! i # drop (Suc i) txs"
      by (simp add: Cons_nth_drop_Suc)
    show ?thesis
      using True by (auto simp: Cons.IH index_go_def attributed_def d)
  next
    case False
    then show ?thesis by (simp add: index_go_def)
  qed
qed

lemma attributed_Nil [simp]: "attributed txs [] = []"
  by (simp add: attributed_def)

lemma merge_responses_eq:
  "merge_responses txs rs result =
     (if \<forall>r \<in> set rs. length r \<le> length txs
      then Inr (result @ concat (map (attributed txs) rs))
      else Inl IndexOutOfRange)"
proof (induction rs arbitrary: result)
  case Nil
  then show ?case by simp
next
  case (Cons r rs)
  show ?case
  proof (cases "r = []")
    case True
    then show ?thesis by (simp add: Cons.IH)
  next
    case False
    then show ?thesis by (simp add: Cons.IH attribute_votes_eq)
  qed
qed

lemma choose_loop_empty: "choose_loop [] rnd i (Suc n) = Inl IntnInvalidArgument"
  by (simp add: Intn_def)

lemma choose_loop_nonempty:
  "list \<noteq> [] \<Longrightarrow> \<exists>chosen. choose_loop list rnd i n = Inr chosen \<and> length chosen = n \<and> set chosen \<subseteq> set list"
proof (induction n arbitrary: i)
  case 0
  then show ?case by simp
next
  case (Suc n)
  from Suc.prems have "rnd i mod length list < length list" by simp
  moreover from Suc obtain chosen where "choose_loop list rnd (Suc i) n = Inr chosen"
    "length chosen = n" "set chosen \<subseteq> set list" by blast
  ultimately show ?case using Suc.prems
    by (simp add: Intn_def index_go_def)
qed

lemma choose_nodes_cases:
  "choose_nodes list k rnd =
     (if k < 0 \<or> 2 ^ 48 < k * 16 then Inl MakeLenOutOfRange
      else if k = 0 then Inr []
      else if list = [] then Inl IntnInvalidArgument
      else choose_loop list rnd 0 (nat k))"
proof (cases "0 < k")
  case True
  then obtain n where "nat k = Suc n" by (cases "nat k") auto
  with True show ?thesis by (auto simp: choose_nodes_def Intn_def)
next
  case False
  then show ?thesis by (simp add: choose_nodes_def)
qed

lemma choose_nodes_total:
  "0 \<le> k \<Longrightarrow> k * 16 \<le> 2 ^ 48 \<Longrightarrow> k = 0 \<or> list \<noteq> [] \<Longrightarrow>
   \<exists>chosen. choose_nodes list k rnd = Inr chosen \<and> int (length chosen) = k \<and> set chosen \<subseteq> set list"
  using choose_loop_nonempty [of list rnd 0 "nat k"]
  by (auto simp: choose_nodes_cases)

lemma TxHash_attributed: "TxHash ` set (attributed txs votes) \<subseteq> set txs"
  by (auto simp: attributed_def dest: set_zip_leftD)

lemma keys_calculateEtas_loop:
  "fst ` set (calculateEtas_loop votes allEtas) = fst ` set allEtas \<union> TxHash ` set votes"
  by (induction votes arbitrary: allEtas) (auto simp: calculateEtas_vote_def dom_update Let_def)

lemma keys_calculateEtas_set: "fst ` set (calculateEtas votes) = TxHash ` set votes"
  using keys_calculateEtas_loop [of votes "[]"] keys_calculateEtas [of votes]
  by (metis image_empty list.set(1) set_map sup_bot.left_neutral)

lemma querySample_keys:
  assumes "querySample txs k nodes qn rnd = Inr etas"
  shows "fst ` set etas \<subseteq> set txs" and "distinct (map fst etas)"
proof -
  from assms obtain sel result where "merge_responses txs (map (qn txs) sel) [] = Inr result"
    and e: "etas = calculateEtas result"
    by (auto simp: querySample_def split: sum.splits)
  then have "result = concat (map (attributed txs) (map (qn txs) sel))"
    by (simp add: merge_responses_eq split: if_splits)
  then have "TxHash ` set result \<subseteq> set txs"
    using TxHash_attributed by fastforce
  then show "fst ` set etas \<subseteq> set txs" by (simp add: e keys_calculateEtas_set)
  show "distinct (map fst etas)"
    by (simp add: e keys_calculateEtas distinct_calculateEtas_loop)
qed

lemma querySample_returns:
  assumes "choose_nodes nodes k rnd = Inr selectedNodes"
    and "\<forall>node \<in> set selectedNodes. length (qn txs node) \<le> length txs"
  shows "querySample txs k nodes qn rnd =
           Inr (calculateEtas (concat (map (\<lambda>node. attributed txs (qn txs node)) selectedNodes)))"
  using assms by (simp add: querySample_def merge_responses_eq comp_def)

text \<open>
  Claim C10. Once the \<open>k\<close> nodes are chosen, \<^verbatim>\<open>querySample\<close> returns (the etas of the
  votes attributed by position) if every answer is empty or no longer than the queried
  list, and it panics with an index out of range as soon as one answer is longer: an answer
  of length between 1 and \<open>len(txs)\<close> has each vote attributed in bounds to
  \<^verbatim>\<open>txs[voteIdx]\<close>, and on a longer answer the index leaves the range.
\<close>

theorem querySample_total_iff:
  assumes "choose_nodes nodes k rnd = Inr selectedNodes"
  shows "((\<forall>node \<in> set selectedNodes. length (qn txs node) \<le> length txs) \<longrightarrow>
            querySample txs k nodes qn rnd =
              Inr (calculateEtas (concat (map (\<lambda>node. attributed txs (qn txs node)) selectedNodes))))
       \<and> ((\<exists>node \<in> set selectedNodes. length txs < length (qn txs node)) \<longrightarrow>
            querySample txs k nodes qn rnd = Inl IndexOutOfRange)
       \<and> (1 \<le> length votes \<and> length votes \<le> length txs \<longrightarrow>
            attribute_votes txs votes 0 result =
              Inr (result @ map (\<lambda>voteIdx. \<lparr>TxHash = txs ! voteIdx, Opinion = votes ! voteIdx\<rparr>) [0..<length votes]))
       \<and> (length txs < length votes \<longrightarrow> attribute_votes txs votes 0 result = Inl IndexOutOfRange)"
proof (intro conjI impI)
  assume "\<forall>node \<in> set selectedNodes. length (qn txs node) \<le> length txs"
  then show "querySample txs k nodes qn rnd =
      Inr (calculateEtas (concat (map (\<lambda>node. attributed txs (qn txs node)) selectedNodes)))"
    using assms by (rule querySample_returns [rotated])
next
  assume "\<exists>node \<in> set selectedNodes. length txs < length (qn txs node)"
  then have "\<not> (\<forall>r \<in> set (map (qn txs) selectedNodes). length r \<le> length txs)"
    by (auto simp: not_le)
  then show "querySample txs k nodes qn rnd = Inl IndexOutOfRange"
    using assms by (simp add: querySample_def merge_responses_eq)
next
  assume a: "1 \<le> length votes \<and> length votes \<le> length txs"
  have "attributed txs votes = map (\<lambda>voteIdx. \<lparr>TxHash = txs ! voteIdx, Opinion = votes ! voteIdx\<rparr>) [0..<length votes]"
    using a by (intro nth_equalityI) (auto simp: attributed_def)
  then show "attribute_votes txs votes 0 result =
      Inr (result @ map (\<lambda>voteIdx. \<lparr>TxHash = txs ! voteIdx, Opinion = votes ! voteIdx\<rparr>) [0..<length votes])"
    using a by (simp add: attribute_votes_eq)
next
  assume "length txs < length votes"
  then show "attribute_votes txs votes 0 result = Inl IndexOutOfRange"
    by (auto simp: attribute_votes_eq)
qed

lemma example_choose: "choose_nodes [''n1'', ''n2''] 2 example_rnd = Inr [''n1'', ''n2'']"
  by (simp add: choose_nodes_def numeral_2_eq_2 Intn_def index_go_def example_rnd_def)

theorem querySample_total_iff_witness:
  "querySample [''t1''] 2 [''n1'', ''n2''] example_qn example_rnd =
     Inr [(''t1'', \<lparr>eta_value = Finite 1, eta_count = 2\<rparr>)]
   \<and> querySample [''t1''] 2 [''n1'', ''n2''] example_long_qn example_rnd = Inl IndexOutOfRange
   \<and> attribute_votes [''t1'', ''t2''] [True, False] 0 [] =
       Inr [\<lparr>TxHash = ''t1'', Opinion = True\<rparr>, \<lparr>TxHash = ''t2'', Opinion = False\<rparr>]
   \<and> attribute_votes [''t1''] [True, False] 0 [] = Inl IndexOutOfRange"
proof -
  have c: "calculateEtas (concat (map (\<lambda>node. attributed [''t1''] (example_qn [''t1''] node)) [''n1'', ''n2'']))
           = [(''t1'', \<lparr>eta_value = Finite 1, eta_count = 2\<rparr>)]"
    by (simp add: attributed_def example_qn_def calculateEtas_def calculateEtas_vote_def
          f64_of_int_def round64_dyadic)
  have "querySample [''t1''] 2 [''n1'', ''n2''] example_qn example_rnd =
     Inr [(''t1'', \<lparr>eta_value = Finite 1, eta_count = 2\<rparr>)]"
    using querySample_total_iff [OF example_choose, of example_qn "[''t1'']" "[]" "[]"] c
    by (simp add: example_qn_def)
  moreover have "querySample [''t1''] 2 [''n1'', ''n2''] example_long_qn example_rnd = Inl IndexOutOfRange"
    using querySample_total_iff [OF example_choose, of example_long_qn "[''t1'']" "[]" "[]"]
    by (auto simp: example_long_qn_def)
  moreover have "attribute_votes [''t1'', ''t2''] [True, False] 0 [] =
       Inr [\<lparr>TxHash = ''t1'', Opinion = True\<rparr>, \<lparr>TxHash = ''t2'', Opinion = False\<rparr>]"
    using querySample_total_iff [OF example_choose, of example_qn "[''t1'', ''t2'']" "[True, False]" "[]"]
    by (simp add: example_qn_def upt_rec)
  moreover have "attribute_votes [''t1''] [True, False] 0 [] = Inl IndexOutOfRange"
    using querySample_total_iff [OF example_choose, of example_qn "[''t1'']" "[True, False]" "[]"]
    by (simp add: example_qn_def)
  ultimately show ?thesis by simp
qed

lemma querySample_no_peers:
  "0 < k \<Longrightarrow> k * 16 \<le> 2 ^ 48 \<Longrightarrow> querySample txs k [] qn rnd = Inl IntnInvalidArgument"
  by (simp add: querySample_def choose_nodes_cases)

subsection \<open>Facts about the phases of a round\<close>

lemma popTxs_loop_frame:
  "popTxs_loop act0 ts (oh, act) = (oh', act') \<Longrightarrow>
     (tx \<notin> TxHash ` set ts \<longrightarrow> oh' tx = oh tx \<and> map_of act' tx = map_of act tx)
   \<and> (map_of act0 tx \<noteq> None \<longrightarrow> oh' tx = oh tx \<and> map_of act' tx = map_of act tx)
   \<and> fst ` set act' \<subseteq> fst ` set act \<union> TxHash ` set ts
   \<and> fst ` set act \<subseteq> fst ` set act'
   \<and> (distinct (map fst act) \<longrightarrow> distinct (map fst act'))
   \<and> ((\<forall>k \<in> fst ` set act. \<exists>h. oh k = Some h \<and> h \<noteq> []) \<longrightarrow>
        (\<forall>k \<in> fst ` set act'. \<exists>h. oh' k = Some h \<and> h \<noteq> []))"
proof (induction ts arbitrary: oh act)
  case Nil
  then show ?case by auto
next
  case (Cons t ts)
  show ?case
  proof (cases "map_of act0 (TxHash t) \<noteq> None")
    case True
    with Cons.prems have "popTxs_loop act0 ts (oh, act) = (oh', act')" by simp
    from Cons.IH [OF this] show ?thesis by auto
  next
    case False
    let ?oh = "oh(TxHash t \<mapsto> [Opinion t])"
    let ?act = "AList.update (TxHash t) \<lparr>eta_value = Finite (- 1), eta_count = 0\<rparr> act"
    from False Cons.prems have "popTxs_loop act0 ts (?oh, ?act) = (oh', act')" by simp
    note IH = Cons.IH [OF this]
    have k: "fst ` set ?act = {TxHash t} \<union> fst ` set act" by (rule dom_update)
    have m: "map_of ?act = (map_of act)(TxHash t \<mapsto> \<lparr>eta_value = Finite (- 1), eta_count = 0\<rparr>)"
      by (rule update_conv')
    have d: "distinct (map fst act) \<Longrightarrow> distinct (map fst ?act)" by (rule distinct_update)
    have h: "(\<forall>k \<in> fst ` set act. \<exists>h. oh k = Some h \<and> h \<noteq> []) \<Longrightarrow>
             (\<forall>k \<in> fst ` set ?act. \<exists>h. ?oh k = Some h \<and> h \<noteq> [])"
      unfolding k by auto
    show ?thesis
    proof (intro conjI impI)
      assume "tx \<notin> TxHash ` set (t # ts)"
      then show "oh' tx = oh tx" "map_of act' tx = map_of act tx" using IH m by auto
    next
      assume "map_of act0 tx \<noteq> None"
      with False have "tx \<noteq> TxHash t" by auto
      with \<open>map_of act0 tx \<noteq> None\<close> show "oh' tx = oh tx" "map_of act' tx = map_of act tx"
        using IH m by auto
    next
      show "fst ` set act' \<subseteq> fst ` set act \<union> TxHash ` set (t # ts)" using IH k by auto
      show "fst ` set act \<subseteq> fst ` set act'" using IH k by auto
    next
      assume "distinct (map fst act)"
      then show "distinct (map fst act')" using IH d by blast
    next
      assume "\<forall>k \<in> fst ` set act. \<exists>h. oh k = Some h \<and> h \<noteq> []"
      then show "\<forall>k \<in> fst ` set act'. \<exists>h. oh' k = Some h \<and> h \<noteq> []" using IH h by blast
    qed
  qed
qed

lemma popTxs_fields [simp]:
  "parameters (popTxs s) = parameters s" "tick (popTxs s) = tick s" "waitingTxs (popTxs s) = []"
  by (simp_all add: popTxs_def split: prod.splits)

lemma popTxs_loop_popTxs:
  "popTxs_loop (activeTxs s) (waitingTxs s) (opinionHistory s, activeTxs s) =
   (opinionHistory (popTxs s), activeTxs (popTxs s))"
  by (simp add: popTxs_def split: prod.splits)

lemmas popTxs_frame = popTxs_loop_frame [OF popTxs_loop_popTxs]

lemma updateOpinion_fields [simp]:
  "parameters (updateOpinion s) = parameters s" "tick (updateOpinion s) = tick s"
  "waitingTxs (updateOpinion s) = waitingTxs s" "activeTxs (updateOpinion s) = activeTxs s"
  by (simp_all add: updateOpinion_def)



lemma updateOpinion_nonempty:
  assumes "distinct (map fst (activeTxs s))"
    and "\<forall>k \<in> fst ` set (activeTxs s). \<exists>h. opinionHistory s k = Some h \<and> h \<noteq> []"
  shows "\<forall>k \<in> fst ` set (activeTxs s). \<exists>h. opinionHistory (updateOpinion s) k = Some h \<and> h \<noteq> []"
proof
  fix k assume k: "k \<in> fst ` set (activeTxs s)"
  with assms(2) obtain h where h: "opinionHistory s k = Some h" "h \<noteq> []" by blast
  from k obtain eta where "map_of (activeTxs s) k = Some eta"
    by (metis domD dom_map_of_conv_image_fst)
  with h assms(1) show "\<exists>h. opinionHistory (updateOpinion s) k = Some h \<and> h \<noteq> []"
    by (simp add: updateOpinion_def updateOpinion_loop_lookup)
qed

lemma store_etas_frame:
  "fst ` set (store_etas etas act) = fst ` set act \<union> fst ` set etas
   \<and> (distinct (map fst act) \<longrightarrow> distinct (map fst (store_etas etas act)))
   \<and> (tx \<notin> fst ` set etas \<longrightarrow> map_of (store_etas etas act) tx = map_of act tx)
   \<and> (fst ` set etas \<subseteq> fst ` set act \<longrightarrow> map fst (store_etas etas act) = map fst act)"
proof (induction etas arbitrary: act)
  case Nil
  then show ?case by simp
next
  case (Cons e etas)
  obtain k v where e: "e = (k, v)" by (cases e)
  have u: "k \<in> fst ` set act \<Longrightarrow> map fst (AList.update k v act) = map fst act"
    by (induction act) auto
  note IH = Cons.IH [of "AList.update k v act"]
  show ?case
  proof (intro conjI impI)
    show "fst ` set (store_etas (e # etas) act) = fst ` set act \<union> fst ` set (e # etas)"
      using IH by (auto simp: e dom_update)
    show "distinct (map fst (store_etas (e # etas) act))" if "distinct (map fst act)"
      using IH that by (simp add: e distinct_update)
    show "map_of (store_etas (e # etas) act) tx = map_of act tx" if "tx \<notin> fst ` set (e # etas)"
      using IH that by (simp add: e update_conv')
    show "map fst (store_etas (e # etas) act) = map fst act" if "fst ` set (e # etas) \<subseteq> fst ` set act"
    proof -
      from that have "k \<in> fst ` set act" by (simp add: e)
      moreover from that have "fst ` set etas \<subseteq> fst ` set (AList.update k v act)"
        by (auto simp: e dom_update)
      ultimately have "map fst (store_etas etas (AList.update k v act)) = map fst (AList.update k v act)"
        using IH by blast
      then show ?thesis using u \<open>k \<in> fst ` set act\<close> by (simp add: e)
    qed
  qed
qed

lemma store_etas_lookup:
  "distinct (map fst etas) \<Longrightarrow>
   map_of (store_etas etas act) tx = (case map_of etas tx of Some eta \<Rightarrow> Some eta | None \<Rightarrow> map_of act tx)"
proof (induction etas arbitrary: act)
  case Nil
  then show ?case by simp
next
  case (Cons e etas)
  obtain k v where e: "e = (k, v)" by (cases e)
  from Cons.prems have d: "distinct (map fst etas)" and n: "k \<notin> fst ` set etas" by (auto simp: e)
  from n have "map_of etas k = None" by (simp add: map_of_eq_None_iff)
  then show ?case
    by (simp add: e Cons.IH [OF d] update_conv' split: option.splits)
qed

lemma round_fpc_Inr:
  assumes "round_fpc fpc rnd = Inr (fpc', fin)"
  shows "\<exists>s3 etas.
           getFinalizedTxs (updateOpinion (popTxs (state fpc))) = Inr (s3, fin)
         \<and> querySample (getActiveTxs s3) (param_k (parameters s3)) (getKnownPeers fpc) (queryNode fpc) rnd
             = Inr etas
         \<and> fpc' = fpc\<lparr>state := s3\<lparr>activeTxs := store_etas etas (activeTxs s3)\<rparr>\<rparr>"
  using assms by (auto simp: round_fpc_def Let_def split: sum.splits)




lemma retired_tick [simp]: "retired tx (s\<lparr>tick := t\<rparr>) = retired tx s"
  by (simp add: retired_def)




subsection \<open>The query phase\<close>

lemma wf_context_iff:
  "wf_context s \<longleftrightarrow>
     distinct (map fst (activeTxs s)) \<and>
     (\<forall>k \<in> fst ` set (activeTxs s). \<exists>h. opinionHistory s k = Some h \<and> h \<noteq> [])"
  by (auto simp: wf_context_def list_all_iff split: option.splits)

text \<open>
  Claim C9. In a round whose finalize phase leaves the state \<open>s3\<close> and whose sampler returns
  the map \<open>etas\<close>, the round returns, and in its final state the result of a tx is the one
  of \<open>etas\<close> if the tx is in \<open>etas\<close> and the one it had in \<open>s3\<close> otherwise; no tx enters or
  leaves the active set in the query phase. Over the whole round: a tx that was active
  before the round, is still active after it and is absent from \<open>etas\<close> keeps exactly the
  result it had (it is not reset to \<open>{-1, 0}\<close>).
\<close>

theorem round_query_frame:
  assumes g: "getFinalizedTxs (updateOpinion (popTxs (state fpc))) = Inr (s3, finalized)"
    and q: "querySample (getActiveTxs s3) (param_k (parameters s3)) (getKnownPeers fpc) (queryNode fpc) rnd
             = Inr etas"
  shows "\<exists>fpc'. round_fpc fpc rnd = Inr (fpc', finalized)
         \<and> (\<forall>tx. map_of (activeTxs (state fpc')) tx =
                  (case map_of etas tx of Some eta \<Rightarrow> Some eta | None \<Rightarrow> map_of (activeTxs s3) tx))
         \<and> (\<forall>tx. tx \<notin> fst ` set etas \<longrightarrow>
                  map_of (activeTxs (state fpc')) tx = map_of (activeTxs s3) tx)
         \<and> map fst (activeTxs (state fpc')) = map fst (activeTxs s3)
         \<and> (\<forall>tx eta. map_of (activeTxs (state fpc)) tx = Some eta
                     \<and> tx \<in> fst ` set (activeTxs (state fpc')) \<and> tx \<notin> fst ` set etas \<longrightarrow>
                  map_of (activeTxs (state fpc')) tx = Some eta)"
proof -
  let ?fpc' = "fpc\<lparr>state := s3\<lparr>activeTxs := store_etas etas (activeTxs s3)\<rparr>\<rparr>"
  have r: "round_fpc fpc rnd = Inr (?fpc', finalized)"
    by (simp add: round_fpc_def g q)
  have act: "activeTxs (state ?fpc') = store_etas etas (activeTxs s3)" by simp
  from querySample_keys [OF q] have sub: "fst ` set etas \<subseteq> fst ` set (activeTxs s3)"
    and dist: "distinct (map fst etas)" by (simp_all add: getActiveTxs_def)
  have 1: "\<forall>tx. map_of (activeTxs (state ?fpc')) tx =
                  (case map_of etas tx of Some eta \<Rightarrow> Some eta | None \<Rightarrow> map_of (activeTxs s3) tx)"
    unfolding act by (simp add: store_etas_lookup [OF dist])
  have 2: "\<forall>tx. tx \<notin> fst ` set etas \<longrightarrow>
                  map_of (activeTxs (state ?fpc')) tx = map_of (activeTxs s3) tx"
    unfolding act using store_etas_frame [of etas "activeTxs s3"] by simp
  have 3: "map fst (activeTxs (state ?fpc')) = map fst (activeTxs s3)"
    unfolding act using store_etas_frame [of etas "activeTxs s3"] sub by simp
  have 4: "\<forall>tx eta. map_of (activeTxs (state fpc)) tx = Some eta
                     \<and> tx \<in> fst ` set (activeTxs (state ?fpc')) \<and> tx \<notin> fst ` set etas \<longrightarrow>
                  map_of (activeTxs (state ?fpc')) tx = Some eta"
  proof (intro allI impI, elim conjE)
    fix tx eta
    assume a: "map_of (activeTxs (state fpc)) tx = Some eta"
      and k: "tx \<in> fst ` set (activeTxs (state ?fpc'))" and n: "tx \<notin> fst ` set etas"
    from k 3 have k3: "tx \<in> fst ` set (activeTxs s3)" by (metis set_map)
    from a popTxs_frame [where s = "state fpc" and tx = tx]
    have "map_of (activeTxs (popTxs (state fpc))) tx = Some eta" by simp
    then have "map_of (activeTxs (updateOpinion (popTxs (state fpc)))) tx = Some eta" by simp
    with getFinalizedTxs_map_of [OF g k3] have "map_of (activeTxs s3) tx = Some eta" by simp
    with 2 n show "map_of (activeTxs (state ?fpc')) tx = Some eta" by simp
  qed
  show ?thesis
    by (intro exI [of _ ?fpc'] conjI) (rule r 1 2 3 4)+
qed

subsection \<open>Ticks\<close>

lemma short_histories_iff:
  "short_histories s \<longleftrightarrow>
     (\<forall>k \<in> fst ` set (activeTxs s). \<forall>h. opinionHistory s k = Some h \<longrightarrow> int (length h) + 1 < 2 ^ 63)"
  by (auto simp: short_histories_def list_all_iff split: option.splits)

lemma popTxs_loop_hist:
  assumes P: "\<And>opinion. P [opinion]"
  shows "popTxs_loop act0 ts (oh, act) = (oh', act') \<Longrightarrow>
         \<forall>k \<in> fst ` set act. \<exists>h. oh k = Some h \<and> P h \<Longrightarrow>
         \<forall>k \<in> fst ` set act'. \<exists>h. oh' k = Some h \<and> P h"
proof (induction ts arbitrary: oh act)
  case Nil
  then show ?case by simp
next
  case (Cons t ts)
  show ?case
  proof (cases "map_of act0 (TxHash t) \<noteq> None")
    case True
    with Cons.prems(1) have "popTxs_loop act0 ts (oh, act) = (oh', act')" by simp
    then show ?thesis using Cons.prems(2) by (rule Cons.IH)
  next
    case False
    let ?oh = "oh(TxHash t \<mapsto> [Opinion t])"
    let ?act = "AList.update (TxHash t) \<lparr>eta_value = Finite (- 1), eta_count = 0\<rparr> act"
    from False Cons.prems(1) have 1: "popTxs_loop act0 ts (?oh, ?act) = (oh', act')" by simp
    have k: "fst ` set ?act = {TxHash t} \<union> fst ` set act" by (rule dom_update)
    have 2: "\<forall>k \<in> fst ` set ?act. \<exists>h. ?oh k = Some h \<and> P h"
      unfolding k using Cons.prems(2) P by auto
    from 1 2 show ?thesis by (rule Cons.IH)
  qed
qed

lemma popTxs_hist:
  assumes "\<And>opinion. P [opinion]"
    and "\<forall>k \<in> fst ` set (activeTxs s). \<exists>h. opinionHistory s k = Some h \<and> P h"
  shows "\<forall>k \<in> fst ` set (activeTxs (popTxs s)). \<exists>h. opinionHistory (popTxs s) k = Some h \<and> P h"
  using popTxs_loop_hist [where P = P, OF assms(1) popTxs_loop_popTxs assms(2)] .

lemma updateOpinion_hist:
  assumes "distinct (map fst (activeTxs s))"
    and "\<forall>k \<in> fst ` set (activeTxs s).
           \<exists>h. opinionHistory s k = Some h \<and> h \<noteq> [] \<and> int (length h) + 1 < 2 ^ 63"
  shows "\<forall>k \<in> fst ` set (activeTxs s).
           \<exists>h. opinionHistory (updateOpinion s) k = Some h \<and> h \<noteq> [] \<and> int (length h) < 2 ^ 63"
proof
  fix k assume k: "k \<in> fst ` set (activeTxs s)"
  with assms(2) obtain h where h: "opinionHistory s k = Some h" "h \<noteq> []" "int (length h) + 1 < 2 ^ 63"
    by blast
  from k obtain eta where "map_of (activeTxs s) k = Some eta"
    by (metis domD dom_map_of_conv_image_fst)
  with h assms(1)
  show "\<exists>h. opinionHistory (updateOpinion s) k = Some h \<and> h \<noteq> [] \<and> int (length h) < 2 ^ 63"
    by (simp add: updateOpinion_def updateOpinion_loop_lookup)
qed

lemma round_fpc_total:
  assumes wf: "wf_context (state fpc)" and sh: "short_histories (state fpc)"
    and k: "0 \<le> param_k (parameters (state fpc))" "param_k (parameters (state fpc)) \<le> 2 ^ 40"
      "param_k (parameters (state fpc)) = 0 \<or> getKnownPeers fpc \<noteq> []"
    and m: "0 \<le> param_m (parameters (state fpc))" and l: "1 \<le> param_l (parameters (state fpc))"
    and ml: "param_m (parameters (state fpc)) + param_l (parameters (state fpc)) < 2 ^ 63"
    and qn: "\<forall>txs node. length (queryNode fpc txs node) \<le> length txs"
  shows "\<exists>fpc' fin. round_fpc fpc rnd = Inr (fpc', fin) \<and> wf_context (state fpc')
          \<and> parameters (state fpc') = parameters (state fpc) \<and> tick (state fpc') = tick (state fpc)
          \<and> finalizedTxsChannel fpc' = finalizedTxsChannel fpc"
proof -
  let ?s = "state fpc"
  let ?s1 = "popTxs ?s"
  let ?s2 = "updateOpinion ?s1"
  let ?P = "\<lambda>h::bool list. h \<noteq> [] \<and> int (length h) + 1 < 2 ^ 63"
  from wf have d0: "distinct (map fst (activeTxs ?s))"
    and n0: "\<forall>k \<in> fst ` set (activeTxs ?s). \<exists>h. opinionHistory ?s k = Some h \<and> h \<noteq> []"
    by (simp_all add: wf_context_iff)
  from sh have b0: "\<forall>k \<in> fst ` set (activeTxs ?s). \<forall>h. opinionHistory ?s k = Some h \<longrightarrow> int (length h) + 1 < 2 ^ 63"
    by (simp add: short_histories_iff)
  have h0: "\<forall>k \<in> fst ` set (activeTxs ?s). \<exists>h. opinionHistory ?s k = Some h \<and> ?P h"
  proof
    fix k assume k: "k \<in> fst ` set (activeTxs ?s)"
    with n0 obtain h where "opinionHistory ?s k = Some h" "h \<noteq> []" by blast
    moreover from this b0 k have "int (length h) + 1 < 2 ^ 63" by blast
    ultimately show "\<exists>h. opinionHistory ?s k = Some h \<and> ?P h" by blast
  qed
  note P = popTxs_frame [where s = ?s and tx = "[]"]
  from P d0 have d1: "distinct (map fst (activeTxs ?s1))" by simp
  have h1: "\<forall>k \<in> fst ` set (activeTxs ?s1). \<exists>h. opinionHistory ?s1 k = Some h \<and> ?P h"
    by (rule popTxs_hist [where P = ?P, OF _ h0]) simp
  from updateOpinion_hist [OF d1 h1]
  have h2: "\<forall>k \<in> fst ` set (activeTxs ?s2).
              \<exists>h. opinionHistory ?s2 k = Some h \<and> h \<noteq> [] \<and> int (length h) < 2 ^ 63"
    by simp
  have d2: "distinct (map fst (activeTxs ?s2))" using d1 by simp
  have m2: "0 \<le> param_m (parameters ?s2)" "1 \<le> param_l (parameters ?s2)"
    "param_m (parameters ?s2) + param_l (parameters ?s2) < 2 ^ 63"
    using m l ml by simp_all
  from getFinalizedTxs_total [OF m2 d2 h2]
  obtain s3 fin where g: "getFinalizedTxs ?s2 = Inr (s3, fin)" by auto
  note F = getFinalizedTxs_frame [OF g]
  from F(6) d2 have d3: "distinct (map fst (activeTxs s3))" by simp
  have h3: "\<forall>k \<in> fst ` set (activeTxs s3). \<exists>h. opinionHistory s3 k = Some h \<and> h \<noteq> []"
  proof
    fix k assume k: "k \<in> fst ` set (activeTxs s3)"
    with F(4) have "k \<in> fst ` set (activeTxs ?s2)" by blast
    with h2 have "\<exists>h. opinionHistory ?s2 k = Some h \<and> h \<noteq> []" by blast
    moreover from F(5) k have "opinionHistory s3 k = opinionHistory ?s2 k" by blast
    ultimately show "\<exists>h. opinionHistory s3 k = Some h \<and> h \<noteq> []" by simp
  qed
  have p3: "parameters s3 = parameters ?s" using F(7) by simp
  have k16: "param_k (parameters s3) * 16 \<le> 2 ^ 48" using k(2) by (simp add: p3)
  from choose_nodes_total [of "param_k (parameters s3)" "getKnownPeers fpc" rnd] k(1,3) k16
  obtain chosen where c: "choose_nodes (getKnownPeers fpc) (param_k (parameters s3)) rnd = Inr chosen"
    by (auto simp: p3)
  from querySample_returns [OF c, of "queryNode fpc" "getActiveTxs s3"] qn
  obtain etas where q: "querySample (getActiveTxs s3) (param_k (parameters s3)) (getKnownPeers fpc)
      (queryNode fpc) rnd = Inr etas" by auto
  let ?fpc' = "fpc\<lparr>state := s3\<lparr>activeTxs := store_etas etas (activeTxs s3)\<rparr>\<rparr>"
  have r: "round_fpc fpc rnd = Inr (?fpc', fin)"
    by (simp add: round_fpc_def g q)
  from querySample_keys(1) [OF q] have sub: "fst ` set etas \<subseteq> fst ` set (activeTxs s3)"
    by (simp add: getActiveTxs_def)
  from store_etas_frame [of etas "activeTxs s3"] sub d3
  have "fst ` set (store_etas etas (activeTxs s3)) = fst ` set (activeTxs s3)"
    and "distinct (map fst (store_etas etas (activeTxs s3)))" by auto
  with h3 have "wf_context (state ?fpc')" by (simp add: wf_context_iff)
  moreover have "parameters (state ?fpc') = parameters ?s" using p3 by simp
  moreover have "tick (state ?fpc') = tick ?s" using F(8) by simp
  ultimately show ?thesis using r by (intro exI [of _ ?fpc'] exI [of _ fin]) simp
qed

lemma round_fpc_opinion:
  assumes r: "round_fpc fpc rnd = Inr (fpc', fin)"
    and d: "distinct (map fst (activeTxs (state fpc)))"
    and m: "map_of (activeTxs (state fpc)) tx = Some eta"
    and h: "opinionHistory (state fpc) tx = Some h"
    and v: "eta_value eta \<noteq> Finite (- 1)"
    and op: "opinion = f64_gt (eta_value eta) (threshold (tick (state fpc)) (parameters (state fpc)) (length h))"
  shows "opinionHistory (state fpc') tx = Some (h @ [opinion])
       \<or> (opinionHistory (state fpc') tx = None \<and> \<lparr>TxHash = tx, Opinion = opinion\<rparr> \<in> set fin)"
proof -
  let ?s = "state fpc"
  let ?s1 = "popTxs ?s"
  let ?s2 = "updateOpinion ?s1"
  from round_fpc_Inr [OF r] obtain s3 etas where
    g: "getFinalizedTxs ?s2 = Inr (s3, fin)"
    and f: "fpc' = fpc\<lparr>state := s3\<lparr>activeTxs := store_etas etas (activeTxs s3)\<rparr>\<rparr>"
    by blast
  have o': "opinionHistory (state fpc') = opinionHistory s3" by (simp add: f)
  note P = popTxs_frame [where s = ?s and tx = tx]
  from P d have d1: "distinct (map fst (activeTxs ?s1))" by simp
  from P m have h1: "opinionHistory ?s1 tx = Some h" and m1: "map_of (activeTxs ?s1) tx = Some eta"
    using h by simp_all
  have h2: "opinionHistory ?s2 tx = Some (h @ [opinion])"
    using m1 h1 v by (simp add: updateOpinion_def updateOpinion_loop_lookup [OF d1] op)
  have L: "fst (Load (opinionHistory ?s2) tx) = Some (h @ [opinion])"
    by (simp add: Load_def h2)
  show ?thesis
  proof (cases "history_isFinal (Some (h @ [opinion])) (param_m (parameters ?s2)) (param_l (parameters ?s2))
                = Inr True")
    case True
    have d2: "distinct (map fst (activeTxs ?s2))" using d1 by simp
    from m1 have a: "tx \<in> set (map fst (activeTxs ?s2))"
      by (metis domI dom_map_of_conv_image_fst set_map updateOpinion_fields(4))
    have "\<lparr>TxHash = tx, Opinion = fst (getLastOpinion (Some (h @ [opinion])))\<rparr> \<in> set fin"
      unfolding getFinalizedTxs_fin [OF g d2] set_map set_filter
      by (rule image_eqI [where x = tx]) (use a True L in simp_all)
    then have i: "\<lparr>TxHash = tx, Opinion = opinion\<rparr> \<in> set fin"
      by (simp add: getLastOpinion_Some)
    have "TxHash \<lparr>TxHash = tx, Opinion = opinion\<rparr> \<in> TxHash ` set fin"
      using i by (rule imageI)
    then have t: "tx \<in> TxHash ` set fin" by simp
    from getFinalizedTxs_frame(2) [OF g] t
    have "opinionHistory s3 tx = None \<and> tx \<notin> fst ` set (activeTxs s3)" by (rule bspec)
    then have "opinionHistory s3 tx = None" by (rule conjunct1)
    with i show ?thesis by (simp add: o')
  next
    case False
    with L have "history_isFinal (fst (Load (opinionHistory ?s2) tx)) (param_m (parameters ?s2))
                   (param_l (parameters ?s2)) \<noteq> Inr True" by simp
    from getFinalizedTxs_keep [OF g this] have "opinionHistory s3 tx = opinionHistory ?s2 tx" .
    with h2 show ?thesis by (simp only: o') simp
  qed
qed

lemma wf_context_tick [simp]: "wf_context (s\<lparr>tick := t\<rparr>) = wf_context s"
  by (simp add: wf_context_def)

lemma short_histories_tick [simp]: "short_histories (s\<lparr>tick := t\<rparr>) = short_histories s"
  by (simp add: short_histories_def)

text \<open>
  Claim C6, amended. \<^verbatim>\<open>Tick\<close> does not clamp: it stores the random value it is given,
  whatever it is (in or out of \<open>[0,1]\<close>, infinite or not a number), and the thresholds of
  the round are computed from that value: every tx that was active before the tick with a
  value other than \<open>-1\<close> gets the opinion \<open>eta.value > \<tau>\<close> appended to its history, with
  \<open>\<tau>\<close> the threshold computed from the value given to \<^verbatim>\<open>Tick\<close>, and either keeps the
  extended history or is finalized with that opinion in the batch of the tick. No panic
  depends on the value: for every tick value the round completes (and leaves a well-formed
  state) provided that the state is well formed and its histories are short,
  \<open>0 \<le> k \<le> 2^40\<close> (so that the \<open>k\<close> strings and the channel of capacity \<open>k\<close> are within the
  allocation limit), \<open>m \<ge> 0\<close>, \<open>l \<ge> 1\<close>, \<open>m + l < 2^63\<close>, the peer set is not empty (or
  \<open>k = 0\<close>), and no answer is longer than the queried list.
\<close>

theorem Tick_unclamped_total:
  assumes "wf_context (state fpc)" and "short_histories (state fpc)"
    and "0 \<le> param_k (parameters (state fpc))" and "param_k (parameters (state fpc)) \<le> 2 ^ 40"
    and "param_k (parameters (state fpc)) = 0 \<or> getKnownPeers fpc \<noteq> []"
    and "0 \<le> param_m (parameters (state fpc))" and "1 \<le> param_l (parameters (state fpc))"
    and "param_m (parameters (state fpc)) + param_l (parameters (state fpc)) < 2 ^ 63"
    and "\<forall>txs node. length (queryNode fpc txs node) \<le> length txs"
  shows "\<exists>fpc'. Tick fpc rnd index random = Inr fpc'
          \<and> tick (state fpc') = \<lparr>tick_index = index, tick_x = random\<rparr>
          \<and> (\<forall>n. threshold (tick (state fpc')) (parameters (state fpc')) n =
                 (if n = 1
                  then f64_add (param_a (parameters (state fpc)))
                         (f64_mul random
                            (f64_sub (param_b (parameters (state fpc))) (param_a (parameters (state fpc)))))
                  else f64_add (param_beta (parameters (state fpc)))
                         (f64_mul random
                            (f64_sub (f64_sub (Finite 1) (param_beta (parameters (state fpc))))
                               (param_beta (parameters (state fpc)))))))
          \<and> (\<forall>tx eta h.
                 map_of (activeTxs (state fpc)) tx = Some eta \<and> opinionHistory (state fpc) tx = Some h
                 \<and> eta_value eta \<noteq> Finite (- 1) \<longrightarrow>
                 opinionHistory (state fpc') tx =
                   Some (h @ [f64_gt (eta_value eta)
                                (threshold \<lparr>tick_index = index, tick_x = random\<rparr>
                                   (parameters (state fpc)) (length h))])
                 \<or> (opinionHistory (state fpc') tx = None
                    \<and> \<lparr>TxHash = tx,
                        Opinion = f64_gt (eta_value eta)
                                    (threshold \<lparr>tick_index = index, tick_x = random\<rparr>
                                       (parameters (state fpc)) (length h))\<rparr>
                        \<in> set (last (finalizedTxsChannel fpc'))))
          \<and> butlast (finalizedTxsChannel fpc') = finalizedTxsChannel fpc
          \<and> wf_context (state fpc')
          \<and> parameters (state fpc') = parameters (state fpc)"
proof -
  let ?fpc = "fpc\<lparr>state := (state fpc)\<lparr>tick := newTick index random\<rparr>\<rparr>"
  let ?t = "\<lparr>tick_index = index, tick_x = random\<rparr>"
  have a: "wf_context (state ?fpc)" "short_histories (state ?fpc)"
    "0 \<le> param_k (parameters (state ?fpc))" "param_k (parameters (state ?fpc)) \<le> 2 ^ 40"
    "param_k (parameters (state ?fpc)) = 0 \<or> getKnownPeers ?fpc \<noteq> []"
    "0 \<le> param_m (parameters (state ?fpc))" "1 \<le> param_l (parameters (state ?fpc))"
    "param_m (parameters (state ?fpc)) + param_l (parameters (state ?fpc)) < 2 ^ 63"
    "\<forall>txs node. length (queryNode ?fpc txs node) \<le> length txs"
    using assms by simp_all
  from round_fpc_total [OF a, of rnd]
  obtain fpc1 fin where r: "round_fpc ?fpc rnd = Inr (fpc1, fin)" and w: "wf_context (state fpc1)"
    and p: "parameters (state fpc1) = parameters (state fpc)"
    and t: "tick (state fpc1) = newTick index random"
    and c: "finalizedTxsChannel fpc1 = finalizedTxsChannel fpc"
    by auto
  let ?fpc' = "fpc1\<lparr>finalizedTxsChannel := finalizedTxsChannel fpc1 @ [fin]\<rparr>"
  have 1: "Tick fpc rnd index random = Inr ?fpc'" by (simp add: Tick_def r)
  have 2: "tick (state ?fpc') = ?t"
    by (simp add: t newTick_def)
  have 3: "\<forall>n. threshold (tick (state ?fpc')) (parameters (state ?fpc')) n =
                 (if n = 1
                  then f64_add (param_a (parameters (state fpc)))
                         (f64_mul random
                            (f64_sub (param_b (parameters (state fpc))) (param_a (parameters (state fpc)))))
                  else f64_add (param_beta (parameters (state fpc)))
                         (f64_mul random
                            (f64_sub (f64_sub (Finite 1) (param_beta (parameters (state fpc))))
                               (param_beta (parameters (state fpc))))))"
    by (simp add: t p newTick_def threshold_def runif_def)
  from assms(1) have d: "distinct (map fst (activeTxs (state ?fpc)))" by (simp add: wf_context_iff)
  have 4: "\<forall>tx eta h.
                 map_of (activeTxs (state fpc)) tx = Some eta \<and> opinionHistory (state fpc) tx = Some h
                 \<and> eta_value eta \<noteq> Finite (- 1) \<longrightarrow>
                 opinionHistory (state ?fpc') tx =
                   Some (h @ [f64_gt (eta_value eta) (threshold ?t (parameters (state fpc)) (length h))])
                 \<or> (opinionHistory (state ?fpc') tx = None
                    \<and> \<lparr>TxHash = tx,
                        Opinion = f64_gt (eta_value eta) (threshold ?t (parameters (state fpc)) (length h))\<rparr>
                        \<in> set (last (finalizedTxsChannel ?fpc')))"
  proof (intro allI impI, elim conjE)
    fix tx eta h
    assume m: "map_of (activeTxs (state fpc)) tx = Some eta"
      and h: "opinionHistory (state fpc) tx = Some h"
      and v: "eta_value eta \<noteq> Finite (- 1)"
    have m': "map_of (activeTxs (state ?fpc)) tx = Some eta" using m by simp
    have h': "opinionHistory (state ?fpc) tx = Some h" using h by simp
    have o: "f64_gt (eta_value eta) (threshold ?t (parameters (state fpc)) (length h))
             = f64_gt (eta_value eta) (threshold (tick (state ?fpc)) (parameters (state ?fpc)) (length h))"
      by (simp add: newTick_def)
    from round_fpc_opinion [OF r d m' h' v o]
    show "opinionHistory (state ?fpc') tx =
                   Some (h @ [f64_gt (eta_value eta) (threshold ?t (parameters (state fpc)) (length h))])
                 \<or> (opinionHistory (state ?fpc') tx = None
                    \<and> \<lparr>TxHash = tx,
                        Opinion = f64_gt (eta_value eta) (threshold ?t (parameters (state fpc)) (length h))\<rparr>
                        \<in> set (last (finalizedTxsChannel ?fpc')))"
      by simp
  qed
  have 5: "butlast (finalizedTxsChannel ?fpc') = finalizedTxsChannel fpc" by (simp add: c)
  have 6: "wf_context (state ?fpc')" using w by simp
  have 7: "parameters (state ?fpc') = parameters (state fpc)" using p by simp
  show ?thesis
    by (intro exI [of _ ?fpc'] conjI) (rule 1 2 3 4 5 6 7)+
qed

subsection \<open>The concrete rounds, evaluated\<close>

lemma example_querySample:
  "querySample [''t2''] 2 [''n1'', ''n2''] example_qn example_rnd =
     Inr [(''t2'', \<lparr>eta_value = Finite 1, eta_count = 2\<rparr>)]"
  by (simp add: querySample_def example_choose example_qn_def calculateEtas_def
      calculateEtas_vote_def index_go_def f64_of_int_def round64_dyadic)

lemma example_querySample_silent:
  "querySample [''t2''] 2 [''n1'', ''n2''] example_silent_qn example_rnd = Inr []"
  by (simp add: querySample_def example_choose example_silent_qn_def calculateEtas_def)

lemma t2_not_final: "history_isFinal (Some [False, b]) 1 2 = Inr False"
  by (simp add: history_isFinal_def slice_from_def isFinal_def wrap64_def)

lemma example_thresholds:
  "runif (Finite (1 / 2)) (Finite (1 / 4)) (Finite (3 / 4)) = Finite (1 / 2)"
  "runif (Finite (1 / 2)) (Finite (1 / 8)) (f64_sub (Finite 1) (Finite (1 / 8))) = Finite (1 / 2)"
  "runif (Finite 2) (Finite (1 / 4)) (Finite (3 / 4)) = Finite (5 / 4)"
  "runif (Finite 1) (Finite (1 / 4)) (Finite (3 / 4)) = Finite (3 / 4)"
  by (simp_all add: runif_def f64_sub_def round64_fractions round64_dyadic)

lemma example_updated_finalize:
  "getFinalizedTxs example_updated = Inr (example_finalized, [\<lparr>TxHash = ''t1'', Opinion = True\<rparr>])"
proof -
  have e: "[''t2'' \<mapsto> [False], ''t1'' \<mapsto> [True, True, True, True]](''t1'' := None) = [''t2'' \<mapsto> [False]]"
    by (rule ext) simp
  show ?thesis
    by (simp add: getFinalizedTxs_def Load_def history_isFinal_def slice_from_def
        isFinal_def wrap64_def index_go_def example_params_def getLastOpinion_def Delete_def
        AList.delete_eq e example_updated_def example_finalized_def)
qed


lemma example_after_Tick: "Tick example_after example_rnd index random = Inr (example_next index random)"
proof -
  let ?fpc0 = "example_after\<lparr>state := (state example_after)\<lparr>tick := newTick index random\<rparr>\<rparr>"
  let ?act = "[(''t2'', \<lparr>eta_value = Finite 1, eta_count = 2\<rparr>)]"
  let ?S = "\<lambda>oh. \<lparr>opinionHistory = oh, activeTxs = ?act, waitingTxs = [],
                    parameters = example_params, tick = newTick index random\<rparr>"
  let ?oh0 = "[''t2'' \<mapsto> [False]]"
  let ?oh2 = "[''t2'' \<mapsto> [False, f64_gt (Finite 1) (runif random (Finite (1 / 4)) (Finite (3 / 4)))]]"
  have p: "popTxs (state ?fpc0) = ?S ?oh0"
    by (simp add: popTxs_def example_after_def)
  have u: "updateOpinion (?S ?oh0) = ?S ?oh2"
    by (simp add: updateOpinion_def Store_def Load_def len_go_def threshold_def f64_ne_def
        example_params_def newTick_def)
  have g: "getFinalizedTxs (?S ?oh2) = Inr (?S ?oh2, [])"
    by (simp add: getFinalizedTxs_def Load_def t2_not_final example_params_def)
  have q: "querySample (getActiveTxs (?S ?oh2)) (param_k (parameters (?S ?oh2)))
             (getKnownPeers ?fpc0) (queryNode ?fpc0) example_rnd
           = Inr [(''t2'', \<lparr>eta_value = Finite 1, eta_count = 2\<rparr>)]"
    by (simp add: getActiveTxs_def example_params_def example_after_def example_querySample)
  show ?thesis
    by (simp only: Tick_def round_fpc_def Let_def p u g q sum.case prod.case)
       (simp add: example_after_def example_next_def)
qed

lemma example_silent_finalize:
  "getFinalizedTxs (updateOpinion (popTxs (state example_silent))) = Inr (state example_silent_after, [])"
proof -
  let ?act = "[(''t2'', \<lparr>eta_value = Finite 1, eta_count = 2\<rparr>)]"
  let ?S = "\<lambda>oh. \<lparr>opinionHistory = oh, activeTxs = ?act, waitingTxs = [],
                    parameters = example_params, tick = newTick 4 (Finite (1 / 2))\<rparr>"
  let ?oh0 = "[''t2'' \<mapsto> [False]]"
  let ?oh2 = "[''t2'' \<mapsto> [False, True]]"
  have p: "popTxs (state example_silent) = ?S ?oh0"
    by (simp add: popTxs_def example_silent_def example_after_def)
  have u: "updateOpinion (?S ?oh0) = ?S ?oh2"
    by (simp add: updateOpinion_def Store_def Load_def len_go_def threshold_def example_thresholds
        f64_ne_def example_params_def newTick_def)
  have g: "getFinalizedTxs (?S ?oh2) = Inr (?S ?oh2, [])"
    by (simp add: getFinalizedTxs_def Load_def t2_not_final example_params_def)
  have "state example_silent_after = ?S ?oh2" by (simp add: example_silent_after_def)
  then show ?thesis by (simp only: p u g)
qed

lemma example_silent_query:
  "querySample (getActiveTxs (state example_silent_after))
     (param_k (parameters (state example_silent_after)))
     (getKnownPeers example_silent) (queryNode example_silent) example_rnd = Inr []"
  by (simp add: getActiveTxs_def example_params_def example_silent_def example_after_def
      example_silent_after_def example_querySample_silent)

lemma example_silent_round: "round_fpc example_silent example_rnd = Inr (example_silent_after, [])"
  by (simp only: round_fpc_def Let_def example_silent_finalize example_silent_query sum.case prod.case)
     (simp add: example_silent_def example_after_def example_silent_after_def)


lemma querySample_no_peers_Inl: "0 < k \<Longrightarrow> \<exists>e. querySample txs k [] qn rnd = Inl e"
  by (simp add: querySample_def choose_nodes_cases)

lemma round_fpc_no_peers:
  assumes "getKnownPeers fpc = []" and "0 < param_k (parameters (state fpc))"
  shows "\<exists>e. round_fpc fpc rnd = Inl e"
proof (cases "getFinalizedTxs (updateOpinion (popTxs (state fpc)))")
  case (Inl e)
  then show ?thesis by (simp add: round_fpc_def)
next
  case (Inr r)
  obtain s3 fin where r: "r = (s3, fin)" by (cases r)
  from getFinalizedTxs_frame(7) [OF Inr [unfolded r]] have "parameters s3 = parameters (state fpc)"
    by simp
  with assms(2) have "0 < param_k (parameters s3)" by simp
  from querySample_no_peers_Inl [OF this] obtain e
    where "querySample (getActiveTxs s3) (param_k (parameters s3)) [] (queryNode fpc) rnd = Inl e"
    by blast
  with assms(1) show ?thesis
    by (simp add: round_fpc_def Inr r)
qed

text \<open>
  The witness for C2: the finalize phase of the round on \<open>example_final\<close>, where \<open>t1\<close> has the
  history Like, Like, Like, Like and \<open>m = 1\<close>, \<open>l = 2\<close>.
\<close>

theorem isFinal_fires_iff_witness:
  "(0::int) \<le> 1 \<and> (1::int) \<le> 2
   \<and> history_isFinal (Some [True, True, True, True]) 1 2 = Inr True
   \<and> fst (getLastOpinion (Some [True, True, True, True])) = True
   \<and> opinionHistory example_updated ''t1'' = Some [True, True, True, True]
   \<and> getFinalizedTxs example_updated = Inr (example_finalized, [\<lparr>TxHash = ''t1'', Opinion = True\<rparr>])"
  using isFinal_fires_iff [of 1 2 "[True, True, True, True]"]
  by (simp add: getLastOpinion_def example_updated_finalize) (simp add: example_updated_def)

text \<open>
  The witness for C9: the peers of \<open>example_silent\<close> return nothing, so \<open>etas\<close> is empty
  and \<open>t2\<close> keeps its result \<open>{1, 2}\<close>.
\<close>

theorem round_query_frame_witness:
  "round_fpc example_silent example_rnd = Inr (example_silent_after, [])
   \<and> map_of (activeTxs (state example_silent)) ''t2'' = Some \<lparr>eta_value = Finite 1, eta_count = 2\<rparr>
   \<and> map_of (activeTxs (state example_silent_after)) ''t2'' = Some \<lparr>eta_value = Finite 1, eta_count = 2\<rparr>"
proof -
  from round_query_frame [OF example_silent_finalize example_silent_query]
  obtain fpc' where r: "round_fpc example_silent example_rnd = Inr (fpc', [])"
    and k: "\<forall>tx eta. map_of (activeTxs (state example_silent)) tx = Some eta
                     \<and> tx \<in> fst ` set (activeTxs (state fpc')) \<and> tx \<notin> fst ` set []  \<longrightarrow>
                  map_of (activeTxs (state fpc')) tx = Some eta"
    by auto
  from r have f: "fpc' = example_silent_after" by (simp add: example_silent_round)
  have a: "map_of (activeTxs (state example_silent)) ''t2'' = Some \<lparr>eta_value = Finite 1, eta_count = 2\<rparr>"
    by (simp add: example_silent_def example_after_def)
  have b: "''t2'' \<in> fst ` set (activeTxs (state example_silent_after))"
    by (simp add: example_silent_after_def)
  from k a b have "map_of (activeTxs (state example_silent_after)) ''t2'' = Some \<lparr>eta_value = Finite 1, eta_count = 2\<rparr>"
    unfolding f by simp
  with r a show ?thesis by (simp add: f)
qed

text \<open>
  Claim C6, as stated, fails: the engine does not clamp. On the tick value 2 the state
  records 2 and the threshold of the first decision round is \<open>1/4 + 2 (3/4 - 1/4) = 5/4\<close>,
  outside \<open>[0,1]\<close>: the unanimous ratio 1 of \<open>t2\<close> gives Dislike, whereas the clamped value
  1 gives the threshold \<open>3/4\<close> and Like.
\<close>

theorem Tick_not_clamped_counterexample:
  "Tick example_after example_rnd 5 (Finite 2) = Inr (example_next 5 (Finite 2))
   \<and> tick_x (tick (state (example_next 5 (Finite 2)))) = Finite 2
   \<and> threshold (tick (state (example_next 5 (Finite 2))))
       (parameters (state (example_next 5 (Finite 2)))) 1 = Finite (5 / 4)
   \<and> opinionHistory (state (example_next 5 (Finite 2))) ''t2'' = Some [False, False]
   \<and> Tick example_after example_rnd 5 (Finite 1) = Inr (example_next 5 (Finite 1))
   \<and> opinionHistory (state (example_next 5 (Finite 1))) ''t2'' = Some [False, True]"
  by (simp add: example_after_Tick)
     (simp add: example_next_def newTick_def threshold_def example_thresholds example_params_def)

lemma example_after_wf: "wf_context (state example_after)"
  by (simp add: wf_context_def example_after_def)

lemma example_after_short: "short_histories (state example_after)"
  by (simp add: short_histories_def example_after_def)

text \<open>
  The witness for C6: the tick \<open>(5, 2)\<close> on \<open>example_after\<close>, where \<open>t2\<close> is active with the
  ratio 1 and the history Dislike; the opinion appended is the one of the threshold \<open>5/4\<close>.
\<close>

theorem Tick_unclamped_total_witness:
  "wf_context (state example_after) \<and> short_histories (state example_after)
   \<and> Tick example_after example_rnd 5 (Finite 2) = Inr (example_next 5 (Finite 2))
   \<and> tick (state (example_next 5 (Finite 2))) = \<lparr>tick_index = 5, tick_x = Finite 2\<rparr>
   \<and> map_of (activeTxs (state example_after)) ''t2'' = Some \<lparr>eta_value = Finite 1, eta_count = 2\<rparr>
   \<and> opinionHistory (state example_after) ''t2'' = Some [False]
   \<and> f64_gt (Finite 1) (threshold \<lparr>tick_index = 5, tick_x = Finite 2\<rparr>
                          (parameters (state example_after)) (length [False])) = False
   \<and> opinionHistory (state (example_next 5 (Finite 2))) ''t2'' = Some [False, False]
   \<and> wf_context (state (example_next 5 (Finite 2)))"
proof -
  have h: "0 \<le> param_k (parameters (state example_after))"
    "param_k (parameters (state example_after)) \<le> 2 ^ 40"
    "param_k (parameters (state example_after)) = 0 \<or> getKnownPeers example_after \<noteq> []"
    "0 \<le> param_m (parameters (state example_after))"
    "1 \<le> param_l (parameters (state example_after))"
    "param_m (parameters (state example_after)) + param_l (parameters (state example_after)) < 2 ^ 63"
    "\<forall>txs node. length (queryNode example_after txs node) \<le> length txs"
    by (simp_all add: example_after_def example_params_def example_qn_def)
  from Tick_unclamped_total [OF example_after_wf example_after_short h, of example_rnd 5 "Finite 2"]
  obtain fpc' where "Tick example_after example_rnd 5 (Finite 2) = Inr fpc'"
    and "tick (state fpc') = \<lparr>tick_index = 5, tick_x = Finite 2\<rparr>" and "wf_context (state fpc')"
    by blast
  then have "tick (state (example_next 5 (Finite 2))) = \<lparr>tick_index = 5, tick_x = Finite 2\<rparr>
             \<and> wf_context (state (example_next 5 (Finite 2)))"
    by (simp add: example_after_Tick)
  moreover have "map_of (activeTxs (state example_after)) ''t2'' = Some \<lparr>eta_value = Finite 1, eta_count = 2\<rparr>"
    "opinionHistory (state example_after) ''t2'' = Some [False]"
    by (simp_all add: example_after_def)
  moreover have "f64_gt (Finite 1) (threshold \<lparr>tick_index = 5, tick_x = Finite 2\<rparr>
                          (parameters (state example_after)) (length [False])) = False"
    by (simp add: threshold_def example_after_def example_params_def example_thresholds)
  moreover have "opinionHistory (state (example_next 5 (Finite 2))) ''t2'' = Some [False, False]"
    by (simp add: example_next_def example_thresholds)
  ultimately show ?thesis
    using example_after_wf example_after_short by (simp add: example_after_Tick)
qed




text \<open>
  Claim C1 fails on the code: with an empty peer set and \<open>k \<ge> 1\<close>, \<^verbatim>\<open>choose\<close> calls
  \<^verbatim>\<open>rand.Intn(0)\<close>, which panics, so \<^verbatim>\<open>querySample\<close> returns no map and the round does not
  complete. Here on scenario S3 of the spec (\<open>k = 5\<close>, no peer, one tx submitted as Like).
\<close>

theorem empty_peers_panic:
  "getKnownPeers example_no_peers = []
   \<and> param_k (parameters (state example_no_peers)) = 5
   \<and> waitingTxs (state example_no_peers) = [\<lparr>TxHash = ''t1'', Opinion = True\<rparr>]
   \<and> querySample [''t1''] 5 [] example_qn example_rnd = Inl IntnInvalidArgument
   \<and> round_fpc example_no_peers example_rnd = Inl IntnInvalidArgument
   \<and> Tick example_no_peers example_rnd 1 (Finite (1 / 2)) = Inl IntnInvalidArgument"
proof -
  let ?fpc0 = "example_no_peers\<lparr>state := (state example_no_peers)\<lparr>tick := newTick 1 (Finite (1 / 2))\<rparr>\<rparr>"
  let ?S = "\<lambda>t. \<lparr>opinionHistory = [''t1'' \<mapsto> [True]],
                   activeTxs = [(''t1'', \<lparr>eta_value = Finite (- 1), eta_count = 0\<rparr>)],
                   waitingTxs = [],
                   parameters = example_params\<lparr>param_k := 5\<rparr>,
                   tick = t\<rparr>"
  have s: "getKnownPeers example_no_peers = []"
    "param_k (parameters (state example_no_peers)) = 5"
    "waitingTxs (state example_no_peers) = [\<lparr>TxHash = ''t1'', Opinion = True\<rparr>]"
    by (simp_all add: example_no_peers_def SubmitTxsForVoting_def New_def newContext_def pushTxs_def)
  have p: "popTxs (state example_no_peers) = ?S (newTick 0 (Finite 0))" "popTxs (state ?fpc0) = ?S (newTick 1 (Finite (1 / 2)))"
    by (simp_all add: example_no_peers_def SubmitTxsForVoting_def New_def newContext_def pushTxs_def
          popTxs_def newEtaMap_def)
  have u: "updateOpinion (?S t) = ?S t" for t
    by (simp add: updateOpinion_def f64_ne_def)
  have g: "getFinalizedTxs (?S t) = Inr (?S t, [])" for t
    by (simp add: getFinalizedTxs_def Load_def history_isFinal_def slice_from_def
        isFinal_def wrap64_def example_params_def)
  have q: "querySample (getActiveTxs (?S t)) (param_k (parameters (?S t)))
             (getKnownPeers example_no_peers) (queryNode example_no_peers) example_rnd
           = Inl IntnInvalidArgument"
          "querySample (getActiveTxs (?S t)) (param_k (parameters (?S t)))
             (getKnownPeers ?fpc0) (queryNode ?fpc0) example_rnd
           = Inl IntnInvalidArgument" for t
    by (simp_all add: s querySample_no_peers)
  have 1: "querySample [''t1''] 5 [] example_qn example_rnd = Inl IntnInvalidArgument"
    by (simp add: querySample_no_peers)
  have 2: "round_fpc example_no_peers example_rnd = Inl IntnInvalidArgument"
    by (simp only: round_fpc_def Let_def p u g q sum.case prod.case)
  have 3: "Tick example_no_peers example_rnd 1 (Finite (1 / 2)) = Inl IntnInvalidArgument"
    by (simp only: Tick_def round_fpc_def Let_def p u g q sum.case prod.case)
  from s 1 2 3 show ?thesis by simp
qed

end
